theory Spec2Isabelle
  imports Main "HOL-Library.Word"
begin

section \<open>Strings\<close>

text \<open>
  A JavaScript string is a sequence of UTF-16 code units and \<^verbatim>\<open>.length\<close> counts
  code units, so texts are lists of 16-bit words. \<open>js\<close> embeds an ASCII literal of
  the source.
\<close>

type_synonym jchar = "16 word"
type_synonym jstring = "jchar list"

definition js :: "string \<Rightarrow> jstring" where
  "js s = map of_char s"

subsection \<open>\<^verbatim>\<open>parseInt(text)\<close> with no radix argument\<close>

text \<open>
  ECMAScript \<^verbatim>\<open>parseInt\<close>: leading white space is skipped, one sign is read, a
  \<^verbatim>\<open>0x\<close>/\<^verbatim>\<open>0X\<close> prefix selects radix 16 (radix 10 otherwise), and the longest
  prefix of digits of that radix is the number; whatever follows is ignored. No digit at
  all gives \<^verbatim>\<open>NaN\<close>, which is \<open>None\<close> here. The result is the exact integer:
  the rounding of JavaScript numbers only touches values beyond \<open>2 ^ 53\<close>, and the
  caller only compares the result with 1 and 20 and keeps it when it lies between them.
\<close>

definition isWhiteSpace :: "jchar \<Rightarrow> bool" where
  "isWhiteSpace c \<longleftrightarrow>
     c \<in> set [0x09, 0x0A, 0x0B, 0x0C, 0x0D, 0x20, 0xA0, 0x1680,
              0x2000, 0x2001, 0x2002, 0x2003, 0x2004, 0x2005, 0x2006, 0x2007,
              0x2008, 0x2009, 0x200A, 0x2028, 0x2029, 0x202F, 0x205F, 0x3000, 0xFEFF]"

definition digitValue :: "jchar \<Rightarrow> nat option" where
  "digitValue c =
     (if 0x30 \<le> c \<and> c \<le> 0x39 then Some (unat c - 0x30)
      else if 0x61 \<le> c \<and> c \<le> 0x7A then Some (unat c - 0x61 + 10)
      else if 0x41 \<le> c \<and> c \<le> 0x5A then Some (unat c - 0x41 + 10)
      else None)"

definition isRadixDigit :: "nat \<Rightarrow> jchar \<Rightarrow> bool" where
  "isRadixDigit R c = (case digitValue c of None \<Rightarrow> False | Some v \<Rightarrow> v < R)"

definition digitsValue :: "nat \<Rightarrow> jstring \<Rightarrow> nat" where
  "digitsValue R Z = foldl (\<lambda>acc c. acc * R + the (digitValue c)) 0 Z"

definition hasHexPrefix :: "jstring \<Rightarrow> bool" where
  "hasHexPrefix S \<longleftrightarrow> take 2 S = js ''0x'' \<or> take 2 S = js ''0X''"

definition parseInt :: "jstring \<Rightarrow> int option" where
  "parseInt inputString =
     (let S = dropWhile isWhiteSpace inputString;
          sign = (if S \<noteq> [] \<and> hd S = 0x2D then - 1 else 1 :: int);
          S1 = (if S \<noteq> [] \<and> (hd S = 0x2B \<or> hd S = 0x2D) then tl S else S);
          R = (if hasHexPrefix S1 then 16 else 10 :: nat);
          S2 = (if hasHexPrefix S1 then drop 2 S1 else S1);
          Z = takeWhile (isRadixDigit R) S2
      in if Z = [] then None else Some (sign * int (digitsValue R Z)))"

section \<open>Data model\<close>

text \<open>What \<^verbatim>\<open>uploadToCloudinary\<close> returns: \<^verbatim>\<open>{ public_id, url }\<close>.\<close>

record image_ref =
  public_id :: jstring
  url :: jstring

datatype service_type = Both | Viewalbum | Uploadpics

datatype event_status = Active | Disabled

datatype upload_type = Preloaded | Guest

text \<open>An element of the Event's \<^verbatim>\<open>preloadedPhotos\<close> array.\<close>

record preloaded_entry =
  entry_public_id :: jstring
  entry_url :: jstring
  entry_uploadedAt :: int

text \<open>The \<^verbatim>\<open>Event\<close> model; enum-typed paths hold a value of the enum.\<close>

record event =
  eventId :: jstring
  welcomeText :: jstring
  description :: jstring
  backgroundImage :: "image_ref option"
  serviceType :: service_type
  uploadLimit :: int
  preloadedPhotos :: "preloaded_entry list"
  createdBy :: jstring
  status :: event_status
  createdAt :: int

record uploader_info =
  ip :: jstring
  userAgent :: "jstring option"

text \<open>The \<^verbatim>\<open>Photo\<close> model.\<close>

record photo =
  photo_eventId :: jstring
  photo_public_id :: jstring
  photo_url :: jstring
  uploadType :: upload_type
  uploaderInfo :: "uploader_info option"
  approved :: bool
  uploadedAt :: int

text \<open>
  The object under \<^verbatim>\<open>userState.eventData\<close>: \<^verbatim>\<open>bot.start\<close> creates it with
  \<^verbatim>\<open>eventId\<close> and \<^verbatim>\<open>createdBy\<close>; every other property is absent (\<open>None\<close>) until
  a handler assigns it. The values are what the handlers store: raw text for
  \<^verbatim>\<open>serviceType\<close>, the parsed number for \<^verbatim>\<open>uploadLimit\<close>.
\<close>

record draft =
  draft_eventId :: jstring
  draft_createdBy :: jstring
  draft_welcomeText :: "jstring option"
  draft_description :: "jstring option"
  draft_backgroundImage :: "image_ref option"
  draft_serviceType :: "jstring option"
  draft_uploadLimit :: "int option"
  draft_preloadedPhotos :: "image_ref list option"

datatype step =
  WelcomeText | Description | BackgroundImage | ServiceType | UploadLimit
  | PreloadedPhotos | EventIdForDisable

text \<open>
  A value of the \<^verbatim>\<open>userStates\<close> map. \<^verbatim>\<open>bot.command('disable')\<close> stores
  \<^verbatim>\<open>{ step: 'eventIdForDisable' }\<close>, an object without \<^verbatim>\<open>eventData\<close>.
\<close>

record session =
  step :: step
  eventData :: "draft option"

text \<open>
  The whole mutable state: the in-memory \<^verbatim>\<open>userStates\<close> map and the two MongoDB
  collections, in insertion order.
\<close>

record system =
  userStates :: "jstring \<rightharpoonup> session"
  events :: "event list"
  photos :: "photo list"

text \<open>
  What the outside world decides during one handler call. \<open>db_ok n\<close>: the \<open>n\<close>-th
  database call of the handler (counted from 0) reaches the database and is answered;
  \<open>clock n\<close>: the value of \<^verbatim>\<open>Date.now\<close> when the \<open>n\<close>-th document of the handler
  is constructed; \<open>download_ok\<close>: fetching the Telegram file and writing the temporary
  file succeed; \<open>cloudinary\<close>: the result of \<^verbatim>\<open>uploadToCloudinary\<close>, \<open>None\<close> when
  it throws. Sending a reply and deleting the temporary file are taken to succeed.
\<close>

record env =
  db_ok :: "nat \<Rightarrow> bool"
  clock :: "nat \<Rightarrow> int"
  download_ok :: bool
  cloudinary :: "image_ref option"

text \<open>The messages the bot sends, one constructor per \<^verbatim>\<open>ctx.reply\<close> of the source.\<close>

datatype reply =
  EventCreated jstring
  | TooLong100
  | NowDescription
  | TooLong200
  | NowBackground
  | UseServiceCommand
  | EnterUploadLimit
  | EnterNumber
  | SendPreloaded
  | EventNotFound
  | UploadsDisabledFor jstring
  | FailedToDisable
  | BackgroundSet
  | PhotoAdded
  | FailedToUpload
  | EventComplete jstring
  | FailedToCreate
  | EnterEventId

text \<open>
  How a bot handler ends: without a message, with a message, or with an exception that
  no \<^verbatim>\<open>try\<close> of the handler catches.
\<close>

datatype outcome = Silent | Reply reply | Uncaught

text \<open>The bodies \<^verbatim>\<open>res.json\<close> sends, with the HTTP status.\<close>

datatype response =
  ErrorResponse nat string
  | EventDetails event "photo list" "photo list" bool
  | UploadSuccess photo
  | Health

record upload_request =
  param_eventId :: jstring
  req_ip :: jstring
  req_userAgent :: "jstring option"
  req_file :: "jstring option"

section \<open>The database\<close>

text \<open>\<^verbatim>\<open>Event.findOne({ eventId })\<close>: the first document with that id.\<close>

definition findOne :: "jstring \<Rightarrow> event list \<Rightarrow> event option" where
  "findOne eid es = find (\<lambda>e. eventId e = eid) es"

text \<open>
  \<^verbatim>\<open>event.status = 'disabled'; await event.save()\<close> on the document \<open>findOne\<close>
  returned: that document is updated where it lies, and only its \<^verbatim>\<open>status\<close>.
\<close>

fun save_disabled :: "jstring \<Rightarrow> event list \<Rightarrow> event list" where
  "save_disabled eid [] = []"
| "save_disabled eid (e # es) =
     (if eventId e = eid then e\<lparr>status := Disabled\<rparr> # es else e # save_disabled eid es)"

definition castServiceType :: "jstring \<Rightarrow> service_type option" where
  "castServiceType s =
     (if s = js ''both'' then Some Both
      else if s = js ''viewalbum'' then Some Viewalbum
      else if s = js ''uploadpics'' then Some Uploadpics
      else None)"

text \<open>
  \<^verbatim>\<open>new Event(eventData)\<close> together with the validation that \<^verbatim>\<open>save()\<close> runs
  first: schema defaults fill the absent paths (\<^verbatim>\<open>serviceType\<close> both,
  \<^verbatim>\<open>uploadLimit\<close> 5, \<^verbatim>\<open>status\<close> active, timestamps now); \<^verbatim>\<open>required\<close> rejects
  an absent or empty string, \<^verbatim>\<open>maxlength\<close>, \<^verbatim>\<open>min\<close>, \<^verbatim>\<open>max\<close> and
  \<^verbatim>\<open>enum\<close> are as in the schema. \<open>None\<close> is the ValidationError.
\<close>

definition new_Event :: "int \<Rightarrow> draft \<Rightarrow> event option" where
  "new_Event now d =
     (case (draft_welcomeText d, draft_description d,
            (case draft_serviceType d of None \<Rightarrow> Some Both | Some s \<Rightarrow> castServiceType s)) of
        (Some w, Some t, Some st) \<Rightarrow>
          (let lim = (case draft_uploadLimit d of None \<Rightarrow> 5 | Some n \<Rightarrow> n)
           in if draft_eventId d \<noteq> [] \<and> w \<noteq> [] \<and> length w \<le> 100 \<and> t \<noteq> []
                 \<and> length t \<le> 200 \<and> 1 \<le> lim \<and> lim \<le> 20 \<and> draft_createdBy d \<noteq> []
              then Some \<lparr>eventId = draft_eventId d, welcomeText = w, description = t,
                     backgroundImage = draft_backgroundImage d, serviceType = st,
                     uploadLimit = lim,
                     preloadedPhotos =
                       map (\<lambda>r. \<lparr>entry_public_id = public_id r, entry_url = url r,
                                  entry_uploadedAt = now\<rparr>)
                         (case draft_preloadedPhotos d of None \<Rightarrow> [] | Some rs \<Rightarrow> rs),
                     createdBy = draft_createdBy d, status = Active, createdAt = now\<rparr>
              else None)
      | _ \<Rightarrow> None)"

text \<open>
  Inserting a new Event as database call \<open>n\<close>: the unique index on \<^verbatim>\<open>eventId\<close>
  refuses an id that is already stored. \<open>None\<close> is the rejected promise.
\<close>

definition save_Event :: "env \<Rightarrow> nat \<Rightarrow> event \<Rightarrow> system \<Rightarrow> system option" where
  "save_Event e n ev \<sigma> =
     (if db_ok e n \<and> eventId ev \<notin> set (map eventId (events \<sigma>))
      then Some (\<sigma>\<lparr>events := events \<sigma> @ [ev]\<rparr>) else None)"

text \<open>
  Inserting a new Photo as database call \<open>n\<close>; \<^verbatim>\<open>eventId\<close>, \<^verbatim>\<open>public_id\<close> and
  \<^verbatim>\<open>url\<close> are \<^verbatim>\<open>required\<close>.
\<close>

definition save_Photo :: "env \<Rightarrow> nat \<Rightarrow> photo \<Rightarrow> system \<Rightarrow> system option" where
  "save_Photo e n p \<sigma> =
     (if photo_eventId p \<noteq> [] \<and> photo_public_id p \<noteq> [] \<and> photo_url p \<noteq> [] \<and> db_ok e n
      then Some (\<sigma>\<lparr>photos := photos \<sigma> @ [p]\<rparr>) else None)"

text \<open>
  \<^verbatim>\<open>Photo.countDocuments({ eventId, uploadType: 'guest', 'uploaderInfo.ip': req.ip })\<close>
\<close>

definition guestUploadsCount :: "jstring \<Rightarrow> jstring \<Rightarrow> photo list \<Rightarrow> nat" where
  "guestUploadsCount eid addr ps =
     length (filter (\<lambda>p. photo_eventId p = eid \<and> uploadType p = Guest
                          \<and> (case uploaderInfo p of None \<Rightarrow> False | Some u \<Rightarrow> ip u = addr)) ps)"

section \<open>The Telegram bot\<close>

text \<open>
  Each handler is modelled as the function it is, called on an update of its own kind
  with \<^verbatim>\<open>ctx.from.id.toString()\<close> as \<open>userId\<close>; which handler the Telegraf
  library calls for an update is not part of the model. The session objects are never
  shared between two keys of \<^verbatim>\<open>userStates\<close>, so an assignment to a property of
  \<^verbatim>\<open>userState\<close> is an update of the map at \<open>userId\<close>.
\<close>

definition toUpperCase :: "jchar \<Rightarrow> jchar" where
  "toUpperCase c = (if 0x61 \<le> c \<and> c \<le> 0x7A then c - 0x20 else c)"

text \<open>
  \<^verbatim>\<open>'EVT_' + Math.random().toString(36).substr(2, 9).toUpperCase()\<close>, where
  \<open>rnd\<close> is the base-36 rendering of the random number (digits, lower-case letters
  and the point).
\<close>

definition generateEventId :: "jstring \<Rightarrow> jstring" where
  "generateEventId rnd = js ''EVT_'' @ map toUpperCase (take 9 (drop 2 rnd))"

definition start_cmd :: "jstring \<Rightarrow> jstring \<Rightarrow> system \<Rightarrow> system \<times> outcome" where
  "start_cmd rnd userId \<sigma> =
     (let eid = generateEventId rnd
      in (\<sigma>\<lparr>userStates := (userStates \<sigma>)(userId \<mapsto>
              \<lparr>step = WelcomeText,
               eventData = Some \<lparr>draft_eventId = eid, draft_createdBy = userId,
                              draft_welcomeText = None, draft_description = None,
                              draft_backgroundImage = None, draft_serviceType = None,
                              draft_uploadLimit = None, draft_preloadedPhotos = None\<rparr>\<rparr>)\<rparr>,
          Reply (EventCreated eid)))"

definition disable_cmd :: "jstring \<Rightarrow> system \<Rightarrow> system \<times> outcome" where
  "disable_cmd userId \<sigma> =
     (\<sigma>\<lparr>userStates := (userStates \<sigma>)(userId \<mapsto> \<lparr>step = EventIdForDisable, eventData = None\<rparr>)\<rparr>,
      Reply EnterEventId)"

text \<open>
  The last statement of the text handler, \<^verbatim>\<open>userStates.set(userId, userState)\<close>,
  reached by every \<^verbatim>\<open>break\<close> and by the steps the \<^verbatim>\<open>switch\<close> has no case for.
\<close>

definition set_state :: "jstring \<Rightarrow> session \<Rightarrow> system \<Rightarrow> system" where
  "set_state userId userState \<sigma> = \<sigma>\<lparr>userStates := (userStates \<sigma>)(userId \<mapsto> userState)\<rparr>"

definition delete_state :: "jstring \<Rightarrow> system \<Rightarrow> system" where
  "delete_state userId \<sigma> = \<sigma>\<lparr>userStates := (userStates \<sigma>)(userId := None)\<rparr>"

text \<open>
  \<^verbatim>\<open>bot.on('text')\<close>. A validation failure is \<^verbatim>\<open>return ctx.reply(...)\<close>, which
  leaves the handler before anything is assigned. Assigning to a property of an absent
  \<^verbatim>\<open>eventData\<close> throws a TypeError outside any \<^verbatim>\<open>try\<close>. In the disable step the
  session is deleted and then stored again by the last statement.
\<close>

definition on_text :: "env \<Rightarrow> jstring \<Rightarrow> jstring \<Rightarrow> system \<Rightarrow> system \<times> outcome" where
  "on_text e userId text \<sigma> =
     (case userStates \<sigma> userId of
        None \<Rightarrow> (\<sigma>, Silent)
      | Some userState \<Rightarrow>
          (case step userState of
             WelcomeText \<Rightarrow>
               if length text > 100 then (\<sigma>, Reply TooLong100)
               else (case eventData userState of
                       None \<Rightarrow> (\<sigma>, Uncaught)
                     | Some d \<Rightarrow>
                         (set_state userId
                            \<lparr>step = Description,
                             eventData = Some (d\<lparr>draft_welcomeText := Some text\<rparr>)\<rparr> \<sigma>,
                          Reply NowDescription))
           | Description \<Rightarrow>
               if length text > 200 then (\<sigma>, Reply TooLong200)
               else (case eventData userState of
                       None \<Rightarrow> (\<sigma>, Uncaught)
                     | Some d \<Rightarrow>
                         (set_state userId
                            \<lparr>step = BackgroundImage,
                             eventData = Some (d\<lparr>draft_description := Some text\<rparr>)\<rparr> \<sigma>,
                          Reply NowBackground))
           | ServiceType \<Rightarrow>
               if text \<notin> set [js ''/both'', js ''/viewalbum'', js ''/uploadpics'']
               then (\<sigma>, Reply UseServiceCommand)
               else (case eventData userState of
                       None \<Rightarrow> (\<sigma>, Uncaught)
                     | Some d \<Rightarrow>
                         (set_state userId
                            \<lparr>step = UploadLimit,
                             eventData = Some (d\<lparr>draft_serviceType :=
                                                  Some (remove1 (of_char CHR ''/'') text)\<rparr>)\<rparr> \<sigma>,
                          Reply EnterUploadLimit))
           | UploadLimit \<Rightarrow>
               (case parseInt text of
                  None \<Rightarrow> (\<sigma>, Reply EnterNumber)
                | Some limit \<Rightarrow>
                    if limit < 1 \<or> limit > 20 then (\<sigma>, Reply EnterNumber)
                    else (case eventData userState of
                            None \<Rightarrow> (\<sigma>, Uncaught)
                          | Some d \<Rightarrow>
                              (set_state userId
                                 \<lparr>step = PreloadedPhotos,
                                  eventData = Some (d\<lparr>draft_uploadLimit := Some limit\<rparr>)\<rparr> \<sigma>,
                               Reply SendPreloaded)))
           | EventIdForDisable \<Rightarrow>
               if \<not> db_ok e 0
               then (set_state userId userState (delete_state userId \<sigma>), Reply FailedToDisable)
               else (case findOne text (events \<sigma>) of
                       None \<Rightarrow> (\<sigma>, Reply EventNotFound)
                     | Some event \<Rightarrow>
                         if \<not> db_ok e 1
                         then (set_state userId userState (delete_state userId \<sigma>),
                               Reply FailedToDisable)
                         else (set_state userId userState
                                 (delete_state userId
                                    (\<sigma>\<lparr>events := save_disabled text (events \<sigma>)\<rparr>)),
                               Reply (UploadsDisabledFor text)))
           | _ \<Rightarrow> (set_state userId userState \<sigma>, Silent)))"

text \<open>
  \<^verbatim>\<open>bot.on('photo')\<close>. Everything after the session lookup runs inside one
  \<^verbatim>\<open>try\<close>, whose \<^verbatim>\<open>catch\<close> replies that the upload failed. In the
  \<^verbatim>\<open>preloadedPhotos\<close> step the array is created before the upload is attempted, so
  it stays in the session when the upload throws.
\<close>

definition on_photo :: "env \<Rightarrow> jstring \<Rightarrow> system \<Rightarrow> system \<times> outcome" where
  "on_photo e userId \<sigma> =
     (case userStates \<sigma> userId of
        None \<Rightarrow> (\<sigma>, Silent)
      | Some userState \<Rightarrow>
          if \<not> download_ok e then (\<sigma>, Reply FailedToUpload)
          else if step userState = BackgroundImage then
            (case cloudinary e of
               None \<Rightarrow> (\<sigma>, Reply FailedToUpload)
             | Some uploadResult \<Rightarrow>
                 (case eventData userState of
                    None \<Rightarrow> (\<sigma>, Reply FailedToUpload)
                  | Some d \<Rightarrow>
                      (set_state userId
                         \<lparr>step = ServiceType,
                          eventData = Some (d\<lparr>draft_backgroundImage := Some uploadResult\<rparr>)\<rparr> \<sigma>,
                       Reply BackgroundSet)))
          else if step userState = PreloadedPhotos then
            (case eventData userState of
               None \<Rightarrow> (\<sigma>, Reply FailedToUpload)
             | Some d \<Rightarrow>
                 (let collected = (case draft_preloadedPhotos d of None \<Rightarrow> [] | Some rs \<Rightarrow> rs)
                  in case cloudinary e of
                       None \<Rightarrow>
                         (set_state userId
                            (userState\<lparr>eventData := Some (d\<lparr>draft_preloadedPhotos := Some collected\<rparr>)\<rparr>)
                            \<sigma>,
                          Reply FailedToUpload)
                     | Some uploadResult \<Rightarrow>
                         (set_state userId
                            (userState\<lparr>eventData :=
                               Some (d\<lparr>draft_preloadedPhotos := Some (collected @ [uploadResult])\<rparr>)\<rparr>)
                            \<sigma>,
                          Reply PhotoAdded)))
          else (set_state userId userState \<sigma>, Silent))"

text \<open>
  The loop of \<^verbatim>\<open>bot.command('done')\<close> over the collected images, the first of
  them saved as database call \<open>n\<close>. The flag tells whether every save succeeded; a
  failed save ends the loop and keeps what was saved before it.
\<close>

definition preloaded_Photo :: "int \<Rightarrow> jstring \<Rightarrow> image_ref \<Rightarrow> photo" where
  "preloaded_Photo now eid r =
     \<lparr>photo_eventId = eid, photo_public_id = public_id r, photo_url = url r,
      uploadType = Preloaded, uploaderInfo = None, approved = True, uploadedAt = now\<rparr>"

fun save_preloaded :: "env \<Rightarrow> nat \<Rightarrow> jstring \<Rightarrow> image_ref list \<Rightarrow> system \<Rightarrow> system \<times> bool" where
  "save_preloaded e n eid [] \<sigma> = (\<sigma>, True)"
| "save_preloaded e n eid (r # rs) \<sigma> =
     (case save_Photo e n (preloaded_Photo (clock e n) eid r) \<sigma> of
        None \<Rightarrow> (\<sigma>, False)
      | Some \<sigma>' \<Rightarrow> save_preloaded e (Suc n) eid rs \<sigma>')"

text \<open>
  The \<^verbatim>\<open>try\<close> block of \<^verbatim>\<open>bot.command('done')\<close> with its \<^verbatim>\<open>catch\<close>: the Event
  is saved as database call 0, the photos as calls 1, 2, ...
\<close>

definition finalize :: "env \<Rightarrow> session \<Rightarrow> system \<Rightarrow> system \<times> reply" where
  "finalize e userState \<sigma> =
     (case eventData userState of
        None \<Rightarrow> (\<sigma>, FailedToCreate)
      | Some d \<Rightarrow>
          (case new_Event (clock e 0) d of
             None \<Rightarrow> (\<sigma>, FailedToCreate)
           | Some event \<Rightarrow>
               (case save_Event e 0 event \<sigma> of
                  None \<Rightarrow> (\<sigma>, FailedToCreate)
                | Some \<sigma>1 \<Rightarrow>
                    (case draft_preloadedPhotos d of
                       None \<Rightarrow> (\<sigma>1, EventComplete (draft_eventId d))
                     | Some rs \<Rightarrow>
                         (case save_preloaded e 1 (draft_eventId d) rs \<sigma>1 of
                            (\<sigma>2, ok) \<Rightarrow>
                              (\<sigma>2, if ok then EventComplete (draft_eventId d)
                                    else FailedToCreate))))))"

definition done_cmd :: "env \<Rightarrow> jstring \<Rightarrow> system \<Rightarrow> system \<times> outcome" where
  "done_cmd e userId \<sigma> =
     (case userStates \<sigma> userId of
        None \<Rightarrow> (\<sigma>, Silent)
      | Some userState \<Rightarrow>
          if step userState = PreloadedPhotos
          then (case finalize e userState \<sigma> of
                  (\<sigma>', r) \<Rightarrow> (delete_state userId \<sigma>', Reply r))
          else (\<sigma>, Silent))"

section \<open>The HTTP routes\<close>

text \<open>
  \<^verbatim>\<open>GET /api/events/:eventId\<close>. The two photo lists are sorted by
  \<^verbatim>\<open>uploadedAt\<close>, newest first.
\<close>

definition get_event :: "env \<Rightarrow> jstring \<Rightarrow> system \<Rightarrow> system \<times> response" where
  "get_event e eid \<sigma> =
     (if \<not> db_ok e 0 then (\<sigma>, ErrorResponse 500 ''Server error'')
      else (case findOne eid (events \<sigma>) of
              None \<Rightarrow> (\<sigma>, ErrorResponse 404 ''Event not found'')
            | Some event \<Rightarrow>
                if \<not> db_ok e 1 \<or> \<not> db_ok e 2 then (\<sigma>, ErrorResponse 500 ''Server error'')
                else (\<sigma>, EventDetails event
                       (sort_key (\<lambda>p. - uploadedAt p)
                          (filter (\<lambda>p. photo_eventId p = eid \<and> uploadType p = Preloaded) (photos \<sigma>)))
                       (sort_key (\<lambda>p. - uploadedAt p)
                          (filter (\<lambda>p. photo_eventId p = eid \<and> uploadType p = Guest \<and> approved p)
                             (photos \<sigma>)))
                       (status event = Active \<and> serviceType event \<noteq> Viewalbum))))"

text \<open>
  \<^verbatim>\<open>POST /api/upload/:eventId\<close>. Database calls: 0 the \<^verbatim>\<open>findOne\<close>, 1 the count,
  2 the save of the new Photo. A request without a file throws at \<^verbatim>\<open>req.file.path\<close>,
  after the admission checks; every exception ends in the 500 response.
\<close>

definition upload_api :: "env \<Rightarrow> upload_request \<Rightarrow> system \<Rightarrow> system \<times> response" where
  "upload_api e req \<sigma> =
     (if \<not> db_ok e 0 then (\<sigma>, ErrorResponse 500 ''Upload failed'')
      else (case findOne (param_eventId req) (events \<sigma>) of
              None \<Rightarrow> (\<sigma>, ErrorResponse 400 ''Uploads not allowed'')
            | Some event \<Rightarrow>
                if status event = Disabled \<or> serviceType event = Viewalbum
                then (\<sigma>, ErrorResponse 400 ''Uploads not allowed'')
                else if \<not> db_ok e 1 then (\<sigma>, ErrorResponse 500 ''Upload failed'')
                else if int (guestUploadsCount (param_eventId req) (req_ip req) (photos \<sigma>))
                          \<ge> uploadLimit event
                then (\<sigma>, ErrorResponse 400 ''Upload limit reached'')
                else (case (req_file req, cloudinary e) of
                        (Some path, Some uploadResult) \<Rightarrow>
                          (let photo =
                                 \<lparr>photo_eventId = param_eventId req,
                                  photo_public_id = public_id uploadResult,
                                  photo_url = url uploadResult, uploadType = Guest,
                                  uploaderInfo = Some \<lparr>ip = req_ip req,
                                                      userAgent = req_userAgent req\<rparr>,
                                  approved = True, uploadedAt = clock e 0\<rparr>
                           in case save_Photo e 2 photo \<sigma> of
                                None \<Rightarrow> (\<sigma>, ErrorResponse 500 ''Upload failed'')
                              | Some \<sigma>' \<Rightarrow> (\<sigma>', UploadSuccess photo))
                      | _ \<Rightarrow> (\<sigma>, ErrorResponse 500 ''Upload failed''))))"

section \<open>Every operation of the system\<close>

text \<open>
  Every handler and route as an operation that may be called. \<open>Done\<close> and
  \<open>Disable\<close> stand for the two command handlers called directly, which the running
  bot never does (see \<open>dispatch\<close> below): \<open>handle\<close> has every behaviour of the
  running system and more.
\<close>

datatype input =
  Start jstring jstring
  | Text jstring jstring
  | PhotoMessage jstring
  | Done jstring
  | Disable jstring
  | GetEvent jstring
  | Upload upload_request
  | GetHealth

datatype answer = Bot outcome | Http response

fun handle :: "env \<Rightarrow> input \<Rightarrow> system \<Rightarrow> system \<times> answer" where
  "handle e (Start rnd userId) \<sigma> = map_prod id Bot (start_cmd rnd userId \<sigma>)"
| "handle e (Text userId text) \<sigma> = map_prod id Bot (on_text e userId text \<sigma>)"
| "handle e (PhotoMessage userId) \<sigma> = map_prod id Bot (on_photo e userId \<sigma>)"
| "handle e (Done userId) \<sigma> = map_prod id Bot (done_cmd e userId \<sigma>)"
| "handle e (Disable userId) \<sigma> = map_prod id Bot (disable_cmd userId \<sigma>)"
| "handle e (GetEvent eid) \<sigma> = map_prod id Http (get_event e eid \<sigma>)"
| "handle e (Upload req) \<sigma> = map_prod id Http (upload_api e req \<sigma>)"
| "handle e GetHealth \<sigma> = (\<sigma>, Http Health)"

subsection \<open>Which handler the running bot calls\<close>

text \<open>
  What Telegram delivers to the bot: a text message (a command is a text message that
  begins with \<^verbatim>\<open>/name\<close>) or a photo message, with its sender.
\<close>

datatype update = TextUpdate jstring jstring | PhotoUpdate jstring

definition isCommandChar :: "jchar \<Rightarrow> bool" where
  "isCommandChar c \<longleftrightarrow>
     (0x30 \<le> c \<and> c \<le> 0x39) \<or> (0x41 \<le> c \<and> c \<le> 0x5A) \<or> (0x61 \<le> c \<and> c \<le> 0x7A)
     \<or> c = 0x5F"

text \<open>The command a text message begins with, if it begins with one.\<close>

definition commandOf :: "jstring \<Rightarrow> jstring option" where
  "commandOf text =
     (case text of
        [] \<Rightarrow> None
      | c # cs \<Rightarrow> if c = 0x2F then Some (takeWhile isCommandChar cs) else None)"

text \<open>
  The source registers its handlers in this order: \<^verbatim>\<open>bot.start\<close> (line 69),
  \<^verbatim>\<open>bot.on('text')\<close> (line 82), \<^verbatim>\<open>bot.on('photo')\<close> (line 140),
  \<^verbatim>\<open>bot.command('done')\<close> (line 176), \<^verbatim>\<open>bot.command('disable')\<close> (line 208).
  Telegraf offers an update to the handlers in the order of registration and goes on to
  the next one only when a handler does not match the update or calls \<^verbatim>\<open>next\<close>.
  The handler of \<^verbatim>\<open>bot.on('text')\<close> matches every text message and takes no
  \<^verbatim>\<open>next\<close>, so every text message that is not the start command ends there, and the
  two command handlers registered after it are never called.
\<close>

definition dispatch :: "env \<Rightarrow> jstring \<Rightarrow> update \<Rightarrow> system \<Rightarrow> system \<times> outcome" where
  "dispatch e rnd upd \<sigma> =
     (case upd of
        TextUpdate userId text \<Rightarrow>
          if commandOf text = Some (js ''start'') then start_cmd rnd userId \<sigma>
          else on_text e userId text \<sigma>
      | PhotoUpdate userId \<Rightarrow> on_photo e userId \<sigma>)"

section \<open>Notions used by the properties\<close>


text \<open>
  A number as the step table means it: a text made of decimal digits only, and the
  integer it denotes.
\<close>

definition is_decimal :: "jstring \<Rightarrow> bool" where
  "is_decimal text \<longleftrightarrow> text \<noteq> [] \<and> list_all (\<lambda>c. 0x30 \<le> c \<and> c \<le> 0x39) text"

definition decimal_value :: "jstring \<Rightarrow> nat" where
  "decimal_value text = foldl (\<lambda>acc c. acc * 10 + (unat c - 0x30)) 0 text"

text \<open>An Event with its \<^verbatim>\<open>status\<close> blanked: two Events agree on every other field
  exactly when these are equal.\<close>

definition except_status :: "event \<Rightarrow> event" where
  "except_status ev = ev\<lparr>status := Active\<rparr>"

text \<open>A submission is rejected when the route answers 400.\<close>

definition rejected :: "response \<Rightarrow> bool" where
  "rejected r = (case r of ErrorResponse code msg \<Rightarrow> code = 400 | _ \<Rightarrow> False)"

definition succeeded :: "response \<Rightarrow> bool" where
  "succeeded r = (case r of UploadSuccess p \<Rightarrow> True | _ \<Rightarrow> False)"

text \<open>Everything a successful submission needs from outside once it is admitted.\<close>

definition storage_ok :: "env \<Rightarrow> upload_request \<Rightarrow> bool" where
  "storage_ok e req \<longleftrightarrow>
     db_ok e 0 \<and> db_ok e 1 \<and> db_ok e 2 \<and> req_file req \<noteq> None \<and> param_eventId req \<noteq> []
     \<and> (case cloudinary e of None \<Rightarrow> False | Some r \<Rightarrow> public_id r \<noteq> [] \<and> url r \<noteq> [])"

text \<open>Submissions one after the other, each with its own environment.\<close>

fun submit_all :: "(env \<times> upload_request) list \<Rightarrow> system \<Rightarrow> system \<times> response list" where
  "submit_all [] \<sigma> = (\<sigma>, [])"
| "submit_all ((e, req) # rest) \<sigma> =
     (case upload_api e req \<sigma> of
        (\<sigma>', r) \<Rightarrow> (case submit_all rest \<sigma>' of (\<sigma>'', rs) \<Rightarrow> (\<sigma>'', r # rs)))"

text \<open>
  A draft as the creation steps leave it when every step has accepted a (non-empty)
  input: all properties present, within the bounds the steps check.
\<close>

definition fully_collected :: "draft \<Rightarrow> bool" where
  "fully_collected d \<longleftrightarrow>
     draft_eventId d \<noteq> [] \<and> draft_createdBy d \<noteq> []
     \<and> (case draft_welcomeText d of None \<Rightarrow> False | Some w \<Rightarrow> w \<noteq> [] \<and> length w \<le> 100)
     \<and> (case draft_description d of None \<Rightarrow> False | Some t \<Rightarrow> t \<noteq> [] \<and> length t \<le> 200)
     \<and> draft_backgroundImage d \<noteq> None
     \<and> (case draft_serviceType d of None \<Rightarrow> False
         | Some s \<Rightarrow> s \<in> set [js ''both'', js ''viewalbum'', js ''uploadpics''])
     \<and> (case draft_uploadLimit d of None \<Rightarrow> False | Some n \<Rightarrow> 1 \<le> n \<and> n \<le> 20)
     \<and> list_all (\<lambda>r. public_id r \<noteq> [] \<and> url r \<noteq> [])
           (case draft_preloadedPhotos d of None \<Rightarrow> [] | Some rs \<Rightarrow> rs)"

text \<open>The images collected in a draft, and the Photos \<^verbatim>\<open>/done\<close> makes of them.\<close>

definition collected :: "draft \<Rightarrow> image_ref list" where
  "collected d = (case draft_preloadedPhotos d of None \<Rightarrow> [] | Some rs \<Rightarrow> rs)"

definition preloaded_Photos :: "env \<Rightarrow> nat \<Rightarrow> jstring \<Rightarrow> image_ref list \<Rightarrow> photo list" where
  "preloaded_Photos e n eid rs =
     map (\<lambda>(k, r). preloaded_Photo (clock e k) eid r) (enumerate n rs)"

text \<open>Handlers one after the other.\<close>

fun run :: "(env \<times> input) list \<Rightarrow> system \<Rightarrow> system" where
  "run [] \<sigma> = \<sigma>"
| "run ((e, i) # rest) \<sigma> = run rest (fst (handle e i \<sigma>))"

text \<open>The \<^verbatim>\<open>uploadEnabled\<close> property of the body the event route sends.\<close>

definition uploadEnabled :: "response \<Rightarrow> bool option" where
  "uploadEnabled r = (case r of EventDetails ev pre gs b \<Rightarrow> Some b | _ \<Rightarrow> None)"

subsection \<open>Concrete scenarios\<close>

definition all_up :: env where
  "all_up = \<lparr>db_ok = (\<lambda>n. True), clock = (\<lambda>n. 1000 + int n), download_ok = True,
             cloudinary = Some \<lparr>public_id = js ''p1'', url = js ''u1''\<rparr>\<rparr>"

definition party :: event where
  "party = \<lparr>eventId = js ''EVT_A1'', welcomeText = js ''Hi'', description = js ''Party'',
            backgroundImage = None, serviceType = Both, uploadLimit = 2,
            preloadedPhotos = [], createdBy = js ''42'', status = Active, createdAt = 7\<rparr>"

definition no_store :: system where
  "no_store = \<lparr>userStates = Map.empty, events = [], photos = []\<rparr>"

definition party_store :: system where
  "party_store = \<lparr>userStates = Map.empty, events = [party], photos = []\<rparr>"

definition guest_request :: upload_request where
  "guest_request = \<lparr>param_eventId = js ''EVT_A1'', req_ip = js ''10.0.0.7'',
                    req_userAgent = Some (js ''curl''), req_file = Some (js ''uploads/f1'')\<rparr>"

definition album_draft :: draft where
  "album_draft = \<lparr>draft_eventId = js ''EVT_B2'', draft_createdBy = js ''42'',
                  draft_welcomeText = Some (js ''Hi''), draft_description = Some (js ''Party''),
                  draft_backgroundImage = Some \<lparr>public_id = js ''bg'', url = js ''ubg''\<rparr>,
                  draft_serviceType = Some (js ''both''), draft_uploadLimit = Some 1,
                  draft_preloadedPhotos =
                    Some [\<lparr>public_id = js ''p1'', url = js ''u1''\<rparr>,
                          \<lparr>public_id = js ''p2'', url = js ''u2''\<rparr>]\<rparr>"

definition at_step :: "step \<Rightarrow> draft option \<Rightarrow> system" where
  "at_step s d = \<lparr>userStates = [js ''42'' \<mapsto> \<lparr>step = s, eventData = d\<rparr>],
                  events = [], photos = []\<rparr>"

definition guest_photo :: photo where
  "guest_photo = \<lparr>photo_eventId = js ''EVT_A1'', photo_public_id = js ''g1'',
                    photo_url = js ''ug1'', uploadType = Guest,
                    uploaderInfo = Some \<lparr>ip = js ''10.0.0.7'', userAgent = None\<rparr>,
                    approved = True, uploadedAt = 9\<rparr>"

definition full_store :: system where
  "full_store = \<lparr>userStates = Map.empty, events = [party], photos = [guest_photo, guest_photo]\<rparr>"

definition disabled_store :: system where
  "disabled_store = \<lparr>userStates = Map.empty, events = [party\<lparr>status := Disabled\<rparr>], photos = []\<rparr>"

definition album_store :: system where
  "album_store = \<lparr>userStates = Map.empty, events = [party\<lparr>serviceType := Viewalbum\<rparr>],
                  photos = []\<rparr>"

text \<open>A whole creation dialogue of user 42, up to two preloaded photos.\<close>

definition creation_flow :: "(env \<times> input) list" where
  "creation_flow =
     [(all_up, Start (js ''0.b2x7k9q1zc4'') (js ''42'')),
      (all_up, Text (js ''42'') (js ''Hi'')),
      (all_up, Text (js ''42'') (js ''Party'')),
      (all_up, PhotoMessage (js ''42'')),
      (all_up, Text (js ''42'') (js ''/both'')),
      (all_up, Text (js ''42'') (js ''1'')),
      (all_up\<lparr>cloudinary := Some \<lparr>public_id = js ''p2'', url = js ''u2''\<rparr>\<rparr>,
       PhotoMessage (js ''42'')),
      (all_up\<lparr>cloudinary := Some \<lparr>public_id = js ''p3'', url = js ''u3''\<rparr>\<rparr>,
       PhotoMessage (js ''42''))]"

definition flow_draft :: draft where
  "flow_draft = \<lparr>draft_eventId = js ''EVT_B2X7K9Q1Z'', draft_createdBy = js ''42'',
                 draft_welcomeText = Some (js ''Hi''), draft_description = Some (js ''Party''),
                 draft_backgroundImage = Some \<lparr>public_id = js ''p1'', url = js ''u1''\<rparr>,
                 draft_serviceType = Some (js ''both''), draft_uploadLimit = Some 1,
                 draft_preloadedPhotos =
                   Some [\<lparr>public_id = js ''p2'', url = js ''u2''\<rparr>,
                         \<lparr>public_id = js ''p3'', url = js ''u3''\<rparr>]\<rparr>"

text \<open>The database answers every call but the save of the second preloaded Photo.\<close>

definition second_photo_fails :: env where
  "second_photo_fails = all_up\<lparr>db_ok := (\<lambda>n. n \<noteq> 2)\<rparr>"

text \<open>User 42 has sent the disable command and the party event exists.\<close>

definition disabling_store :: system where
  "disabling_store =
     \<lparr>userStates = [js ''42'' \<mapsto> \<lparr>step = EventIdForDisable, eventData = None\<rparr>],
      events = [party], photos = []\<rparr>"

text \<open>
  A creation dialogue in the order of the steps: the start command, the welcome text, the
  description, the background image, the service command, the upload limit and any
  number of preloaded photos, every download and upload succeeding; and the draft it
  should leave.
\<close>

definition photo_env :: "image_ref \<Rightarrow> env" where
  "photo_env r = all_up\<lparr>cloudinary := Some r\<rparr>"

definition dialogue ::
  "jstring \<Rightarrow> jstring \<Rightarrow> jstring \<Rightarrow> jstring \<Rightarrow> image_ref \<Rightarrow> jstring \<Rightarrow> jstring \<Rightarrow> image_ref list
     \<Rightarrow> (env \<times> input) list" where
  "dialogue rnd userId w t bg s n imgs =
     [(all_up, Start rnd userId), (all_up, Text userId w), (all_up, Text userId t),
      (photo_env bg, PhotoMessage userId), (all_up, Text userId s), (all_up, Text userId n)]
     @ map (\<lambda>r. (photo_env r, PhotoMessage userId)) imgs"

definition dialogue_draft ::
  "jstring \<Rightarrow> jstring \<Rightarrow> jstring \<Rightarrow> jstring \<Rightarrow> image_ref \<Rightarrow> jstring \<Rightarrow> int \<Rightarrow> image_ref list
     \<Rightarrow> draft" where
  "dialogue_draft rnd userId w t bg s k imgs =
     \<lparr>draft_eventId = generateEventId rnd, draft_createdBy = userId,
      draft_welcomeText = Some w, draft_description = Some t,
      draft_backgroundImage = Some bg,
      draft_serviceType = Some (remove1 (of_char CHR ''/'') s),
      draft_uploadLimit = Some k,
      draft_preloadedPhotos = (if imgs = [] then None else Some imgs)\<rparr>"

section \<open>Properties\<close>

subsection \<open>Auxiliary facts\<close>

lemma set_state_same: "userStates \<sigma> u = Some us \<Longrightarrow> set_state u us \<sigma> = \<sigma>"
  by (simp add: set_state_def map_upd_triv)


lemma set_delete_events:
  "userStates \<sigma> u = Some us \<Longrightarrow>
   set_state u us (delete_state u (\<sigma>\<lparr>events := es\<rparr>)) = \<sigma>\<lparr>events := es\<rparr>"
  by (simp add: set_state_def delete_state_def map_upd_triv)

lemmas parse_defs = parseInt_def Let_def js_def isWhiteSpace_def hasHexPrefix_def
  isRadixDigit_def digitValue_def digitsValue_def

subsection \<open>Invalid input\<close>



subsection \<open>Sessions are created by two commands only\<close>

lemma save_preloaded_userStates:
  "userStates (fst (save_preloaded e n eid rs \<sigma>)) = userStates \<sigma>"
  by (induction rs arbitrary: n \<sigma>) (auto simp: save_Photo_def split: option.splits)

lemma finalize_userStates: "userStates (fst (finalize e us \<sigma>)) = userStates \<sigma>"
proof (cases "eventData us")
  case None
  then show ?thesis by (simp add: finalize_def)
next
  case (Some d)
  show ?thesis
  proof (cases "new_Event (clock e 0) d")
    case None
    with Some show ?thesis by (simp add: finalize_def)
  next
    case ev: (Some event)
    show ?thesis
    proof (cases "save_Event e 0 event \<sigma>")
      case None
      with Some ev show ?thesis by (simp add: finalize_def)
    next
      case s1: (Some \<sigma>1)
      then have u: "userStates \<sigma>1 = userStates \<sigma>"
        by (auto simp: save_Event_def split: if_splits)
      show ?thesis
      proof (cases "draft_preloadedPhotos d")
        case None
        with Some ev s1 u show ?thesis by (simp add: finalize_def)
      next
        case rs: (Some rs)
        obtain \<sigma>2 ok where sp: "save_preloaded e 1 (draft_eventId d) rs \<sigma>1 = (\<sigma>2, ok)"
          by (cases "save_preloaded e 1 (draft_eventId d) rs \<sigma>1")
        with save_preloaded_userStates [of e 1 "draft_eventId d" rs \<sigma>1] u
        have "userStates \<sigma>2 = userStates \<sigma>" by simp
        with Some ev s1 rs sp show ?thesis
          by (simp add: finalize_def)
      qed
    qed
  qed
qed

lemma dom_on_text: "dom (userStates (fst (on_text e u t \<sigma>))) \<subseteq> dom (userStates \<sigma>)"
proof (cases "userStates \<sigma> u")
  case None
  then show ?thesis by (simp add: on_text_def)
next
  case (Some us)
  then have d: "u \<in> dom (userStates \<sigma>)"
    by auto
  show ?thesis
    by (cases "step us")
      (simp_all add: Some on_text_def set_state_def delete_state_def d
        split: option.splits)
qed

lemma dom_on_photo: "dom (userStates (fst (on_photo e u \<sigma>))) \<subseteq> dom (userStates \<sigma>)"
proof (cases "userStates \<sigma> u")
  case None
  then show ?thesis by (simp add: on_photo_def)
next
  case (Some us)
  then have d: "u \<in> dom (userStates \<sigma>)"
    by auto
  show ?thesis
    by (simp add: Some on_photo_def set_state_def d Let_def split: option.splits)
qed

lemma dom_done: "dom (userStates (fst (done_cmd e u \<sigma>))) \<subseteq> dom (userStates \<sigma>)"
proof (cases "userStates \<sigma> u")
  case None
  then show ?thesis by (simp add: done_cmd_def)
next
  case (Some us)
  show ?thesis
    using finalize_userStates [of e us \<sigma>]
    by (auto simp: Some done_cmd_def delete_state_def split: prod.splits if_splits)
qed

text \<open>
  Claim C10. A text message, a photo message or the completion signal from a user
  without a session changes nothing: no session appears, no draft changes, nothing is
  persisted and nothing is sent. Over all operations, a key can enter \<^verbatim>\<open>userStates\<close>
  only through the start command or the disable command, and then only the sender's.
\<close>

theorem no_session_no_change:
  "(userStates \<sigma> userId = None \<longrightarrow>
      handle e (Text userId text) \<sigma> = (\<sigma>, Bot Silent)
      \<and> handle e (PhotoMessage userId) \<sigma> = (\<sigma>, Bot Silent)
      \<and> handle e (Done userId) \<sigma> = (\<sigma>, Bot Silent))
   \<and> dom (userStates (fst (handle e i \<sigma>)))
       \<subseteq> dom (userStates \<sigma>)
          \<union> (case i of Start rnd u \<Rightarrow> {u} | Disable u \<Rightarrow> {u} | _ \<Rightarrow> {})"
proof (intro conjI impI)
  assume "userStates \<sigma> userId = None"
  then show "handle e (Text userId text) \<sigma> = (\<sigma>, Bot Silent)"
    and "handle e (PhotoMessage userId) \<sigma> = (\<sigma>, Bot Silent)"
    and "handle e (Done userId) \<sigma> = (\<sigma>, Bot Silent)"
    by (simp_all add: on_text_def on_photo_def done_cmd_def)
next
  show "dom (userStates (fst (handle e i \<sigma>)))
       \<subseteq> dom (userStates \<sigma>)
          \<union> (case i of Start rnd u \<Rightarrow> {u} | Disable u \<Rightarrow> {u} | _ \<Rightarrow> {})"
  proof (cases i)
    case (Start rnd u)
    then show ?thesis by (auto simp: start_cmd_def Let_def)
  next
    case (Text u t)
    with dom_on_text [of e u t \<sigma>] show ?thesis by simp
  next
    case (PhotoMessage u)
    with dom_on_photo [of e u \<sigma>] show ?thesis by simp
  next
    case (Done u)
    with dom_done [of e u \<sigma>] show ?thesis by simp
  next
    case (Disable u)
    then show ?thesis by (auto simp: disable_cmd_def)
  next
    case (GetEvent eid)
    then show ?thesis by (simp add: get_event_def split: option.splits)
  next
    case (Upload req)
    then show ?thesis
      by (auto simp: upload_api_def save_Photo_def Let_def split: option.splits if_splits)
  next
    case GetHealth
    then show ?thesis by simp
  qed
qed

theorem no_session_no_change_witness:
  "userStates no_store (js ''42'') = None
   \<and> handle all_up (Text (js ''42'') (js ''Hi'')) no_store = (no_store, Bot Silent)
   \<and> handle all_up (PhotoMessage (js ''42'')) no_store = (no_store, Bot Silent)
   \<and> handle all_up (Done (js ''42'')) no_store = (no_store, Bot Silent)
   \<and> dom (userStates (fst (handle all_up (Done (js ''42'')) no_store))) \<subseteq> {}"
proof -
  have n: "userStates no_store (js ''42'') = None"
    by (simp add: no_store_def)
  have d: "dom (userStates no_store) = {}"
    by (simp add: no_store_def)
  from no_session_no_change [of no_store "js ''42''" all_up "js ''Hi''" "Done (js ''42'')"] n d
  show ?thesis by simp
qed


subsection \<open>Bounds of the text steps\<close>

text \<open>
  Claim C6. In the \<^verbatim>\<open>welcomeText\<close> step a text of exactly 100 code units is stored
  and the session moves to \<^verbatim>\<open>description\<close>, and one of 101 is turned down with the
  state unchanged; in the \<^verbatim>\<open>description\<close> step the same holds at 200 (moving to
  \<^verbatim>\<open>backgroundImage\<close>) and 201.
\<close>

theorem text_length_boundaries:
  assumes "userStates \<sigma> userId = Some userState" and "eventData userState = Some d"
  shows "(step userState = WelcomeText \<and> length text = 100 \<longrightarrow>
            on_text e userId text \<sigma>
              = (set_state userId
                   \<lparr>step = Description,
                    eventData = Some (d\<lparr>draft_welcomeText := Some text\<rparr>)\<rparr> \<sigma>,
                 Reply NowDescription))
       \<and> (step userState = WelcomeText \<and> length text = 101 \<longrightarrow>
            on_text e userId text \<sigma> = (\<sigma>, Reply TooLong100))
       \<and> (step userState = Description \<and> length text = 200 \<longrightarrow>
            on_text e userId text \<sigma>
              = (set_state userId
                   \<lparr>step = BackgroundImage,
                    eventData = Some (d\<lparr>draft_description := Some text\<rparr>)\<rparr> \<sigma>,
                 Reply NowBackground))
       \<and> (step userState = Description \<and> length text = 201 \<longrightarrow>
            on_text e userId text \<sigma> = (\<sigma>, Reply TooLong200))"
  using assms by (simp add: on_text_def)

theorem text_length_boundaries_witness:
  "userStates (at_step WelcomeText (Some album_draft)) (js ''42'')
     = Some \<lparr>step = WelcomeText, eventData = Some album_draft\<rparr>
   \<and> length (replicate 100 (0x61 :: jchar)) = 100
   \<and> userStates (fst (on_text all_up (js ''42'') (replicate 100 0x61)
                        (at_step WelcomeText (Some album_draft)))) (js ''42'')
       = Some \<lparr>step = Description,
               eventData = Some (album_draft\<lparr>draft_welcomeText := Some (replicate 100 0x61)\<rparr>)\<rparr>
   \<and> length (replicate 101 (0x61 :: jchar)) = 101
   \<and> on_text all_up (js ''42'') (replicate 101 0x61) (at_step WelcomeText (Some album_draft))
       = (at_step WelcomeText (Some album_draft), Reply TooLong100)
   \<and> userStates (at_step Description (Some album_draft)) (js ''42'')
     = Some \<lparr>step = Description, eventData = Some album_draft\<rparr>
   \<and> length (replicate 200 (0x61 :: jchar)) = 200
   \<and> userStates (fst (on_text all_up (js ''42'') (replicate 200 0x61)
                        (at_step Description (Some album_draft)))) (js ''42'')
       = Some \<lparr>step = BackgroundImage,
               eventData = Some (album_draft\<lparr>draft_description := Some (replicate 200 0x61)\<rparr>)\<rparr>
   \<and> length (replicate 201 (0x61 :: jchar)) = 201
   \<and> on_text all_up (js ''42'') (replicate 201 0x61) (at_step Description (Some album_draft))
       = (at_step Description (Some album_draft), Reply TooLong200)"
proof -
  have w: "userStates (at_step WelcomeText (Some album_draft)) (js ''42'')
             = Some \<lparr>step = WelcomeText, eventData = Some album_draft\<rparr>"
    by (simp add: at_step_def)
  have d: "userStates (at_step Description (Some album_draft)) (js ''42'')
             = Some \<lparr>step = Description, eventData = Some album_draft\<rparr>"
    by (simp add: at_step_def)
  have u: "userStates (set_state k v \<sigma>) k = Some v" for k v \<sigma>
    by (simp add: set_state_def)
  from text_length_boundaries [OF w, of album_draft "replicate 100 0x61" all_up]
    text_length_boundaries [OF w, of album_draft "replicate 101 0x61" all_up]
    text_length_boundaries [OF d, of album_draft "replicate 200 0x61" all_up]
    text_length_boundaries [OF d, of album_draft "replicate 201 0x61" all_up]
    w d
  show ?thesis by (simp add: u)
qed

text \<open>On a text of decimal digits \<^verbatim>\<open>parseInt\<close> gives the integer it denotes.\<close>

lemma decimal_digit_facts:
  fixes c :: jchar
  assumes "0x30 \<le> c" and "c \<le> 0x39"
  shows "\<not> isWhiteSpace c" and "c \<noteq> 0x2D" and "c \<noteq> 0x2B" and "c \<noteq> 0x78" and "c \<noteq> 0x58"
    and "digitValue c = Some (unat c - 0x30)" and "isRadixDigit 10 c"
proof -
  from assms have lo: "48 \<le> unat c" and hi: "unat c \<le> 57"
    by (simp_all add: word_le_nat_alt)
  from lo hi show "c \<noteq> 0x2D" "c \<noteq> 0x2B" "c \<noteq> 0x78" "c \<noteq> 0x58"
    by auto
  from lo hi show "\<not> isWhiteSpace c"
    by (auto simp: isWhiteSpace_def)
  from assms show d: "digitValue c = Some (unat c - 0x30)"
    by (simp add: digitValue_def)
  from hi d show "isRadixDigit 10 c"
    by (simp add: isRadixDigit_def)
qed

lemma digitsValue_decimal:
  "list_all (\<lambda>c. 0x30 \<le> c \<and> c \<le> 0x39) str \<Longrightarrow>
   foldl (\<lambda>acc c. acc * 10 + the (digitValue c)) a str
     = foldl (\<lambda>acc c. acc * 10 + (unat c - 0x30)) a str"
  by (induction str arbitrary: a) (simp_all add: decimal_digit_facts)

lemma parseInt_decimal:
  assumes "is_decimal str"
  shows "parseInt str = Some (int (decimal_value str))"
proof -
  from assms obtain c cs where t: "str = c # cs"
    and c: "0x30 \<le> c" "c \<le> 0x39"
    and cs: "list_all (\<lambda>c. 0x30 \<le> c \<and> c \<le> 0x39) cs"
    by (cases str) (auto simp: is_decimal_def)
  from assms have all: "list_all (\<lambda>c. 0x30 \<le> c \<and> c \<le> 0x39) str"
    by (simp add: is_decimal_def)
  have ws: "dropWhile isWhiteSpace str = str"
    using t decimal_digit_facts(1) [OF c] by simp
  have nohex: "\<not> hasHexPrefix str"
  proof (cases cs)
    case Nil
    with t show ?thesis by (simp add: hasHexPrefix_def js_def)
  next
    case (Cons c' cs')
    with cs have "0x30 \<le> c'" "c' \<le> 0x39" by simp_all
    from decimal_digit_facts(4,5) [OF this] t Cons show ?thesis
      by (simp add: hasHexPrefix_def js_def)
  qed
  have digits: "takeWhile (isRadixDigit 10) str = str"
    using all by (simp add: takeWhile_eq_all_conv list_all_iff decimal_digit_facts(7))
  have v: "digitsValue 10 str = decimal_value str"
    using digitsValue_decimal [OF all, of 0] by (simp add: digitsValue_def decimal_value_def)
  from t decimal_digit_facts(2,3) [OF c] have sign: "hd str \<noteq> 0x2D" "hd str \<noteq> 0x2B"
    by simp_all
  from ws nohex digits v sign t show ?thesis
    by (simp add: parseInt_def Let_def)
qed


text \<open>
  Claim C7, as the code has it. In the \<^verbatim>\<open>uploadLimit\<close> step every text for which
  \<^verbatim>\<open>parseInt\<close> gives no number, or a number below 1 or above 20, is turned down and
  the state stays as it was; this covers every text of decimal digits whose value is
  below 1 or above 20. The texts \<^verbatim>\<open>1\<close> and \<^verbatim>\<open>20\<close> are accepted. Every other
  text from whose front \<^verbatim>\<open>parseInt\<close> reads an integer between 1 and 20 is accepted
  as well, whatever follows that integer: the integer becomes the draft's
  \<^verbatim>\<open>uploadLimit\<close> and the session moves to \<^verbatim>\<open>preloadedPhotos\<close>.
\<close>

theorem upload_limit_validation:
  assumes "userStates \<sigma> userId = Some userState" and "step userState = UploadLimit"
  shows "((parseInt text = None \<or> (\<exists>n. parseInt text = Some n \<and> (n < 1 \<or> 20 < n)))
            \<longrightarrow> on_text e userId text \<sigma> = (\<sigma>, Reply EnterNumber))
       \<and> (is_decimal text \<and> (decimal_value text < 1 \<or> 20 < decimal_value text)
            \<longrightarrow> on_text e userId text \<sigma> = (\<sigma>, Reply EnterNumber))
       \<and> (\<forall>d. eventData userState = Some d \<longrightarrow>
            on_text e userId (js ''1'') \<sigma>
              = (set_state userId
                   \<lparr>step = PreloadedPhotos,
                    eventData = Some (d\<lparr>draft_uploadLimit := Some 1\<rparr>)\<rparr> \<sigma>,
                 Reply SendPreloaded)
            \<and> on_text e userId (js ''20'') \<sigma>
              = (set_state userId
                   \<lparr>step = PreloadedPhotos,
                    eventData = Some (d\<lparr>draft_uploadLimit := Some 20\<rparr>)\<rparr> \<sigma>,
                 Reply SendPreloaded))
       \<and> (\<forall>d n. eventData userState = Some d \<and> parseInt text = Some n \<and> 1 \<le> n \<and> n \<le> 20 \<longrightarrow>
            on_text e userId text \<sigma>
              = (set_state userId
                   \<lparr>step = PreloadedPhotos,
                    eventData = Some (d\<lparr>draft_uploadLimit := Some n\<rparr>)\<rparr> \<sigma>,
                 Reply SendPreloaded))"
proof (intro conjI impI allI)
  assume "parseInt text = None \<or> (\<exists>n. parseInt text = Some n \<and> (n < 1 \<or> 20 < n))"
  with assms show "on_text e userId text \<sigma> = (\<sigma>, Reply EnterNumber)"
    by (auto simp add: on_text_def)
next
  assume d: "is_decimal text \<and> (decimal_value text < 1 \<or> 20 < decimal_value text)"
  then have "parseInt text = Some (int (decimal_value text))"
    by (simp add: parseInt_decimal)
  with d assms show "on_text e userId text \<sigma> = (\<sigma>, Reply EnterNumber)"
    by (auto simp add: on_text_def)
next
  fix d
  assume "eventData userState = Some d"
  moreover have "parseInt (js ''1'') = Some 1" by (simp add: parse_defs)
  ultimately show "on_text e userId (js ''1'') \<sigma>
              = (set_state userId
                   \<lparr>step = PreloadedPhotos,
                    eventData = Some (d\<lparr>draft_uploadLimit := Some 1\<rparr>)\<rparr> \<sigma>,
                 Reply SendPreloaded)"
    using assms by (simp add: on_text_def)
next
  fix d
  assume "eventData userState = Some d"
  moreover have "parseInt (js ''20'') = Some 20" by (simp add: parse_defs)
  ultimately show "on_text e userId (js ''20'') \<sigma>
              = (set_state userId
                   \<lparr>step = PreloadedPhotos,
                    eventData = Some (d\<lparr>draft_uploadLimit := Some 20\<rparr>)\<rparr> \<sigma>,
                 Reply SendPreloaded)"
    using assms by (simp add: on_text_def)
next
  fix d n
  assume "eventData userState = Some d \<and> parseInt text = Some n \<and> 1 \<le> n \<and> n \<le> 20"
  with assms show "on_text e userId text \<sigma>
              = (set_state userId
                   \<lparr>step = PreloadedPhotos,
                    eventData = Some (d\<lparr>draft_uploadLimit := Some n\<rparr>)\<rparr> \<sigma>,
                 Reply SendPreloaded)"
    by (simp add: on_text_def)
qed

text \<open>
  Claim C7 as stated fails: \<^verbatim>\<open>5abc\<close> is not a number and \<^verbatim>\<open>1e3\<close> is not an
  integer between 1 and 20, yet both are accepted, with 5 and 1 stored as the limit.
\<close>

theorem trailing_text_accepted:
  "\<not> is_decimal (js ''5abc'')
   \<and> userStates (fst (on_text all_up (js ''42'') (js ''5abc'')
                        (at_step UploadLimit (Some album_draft)))) (js ''42'')
       = Some \<lparr>step = PreloadedPhotos,
               eventData = Some (album_draft\<lparr>draft_uploadLimit := Some 5\<rparr>)\<rparr>
   \<and> \<not> is_decimal (js ''1e3'')
   \<and> userStates (fst (on_text all_up (js ''42'') (js ''1e3'')
                        (at_step UploadLimit (Some album_draft)))) (js ''42'')
       = Some \<lparr>step = PreloadedPhotos,
               eventData = Some (album_draft\<lparr>draft_uploadLimit := Some 1\<rparr>)\<rparr>"
  by (simp add: is_decimal_def on_text_def at_step_def set_state_def parse_defs)

theorem upload_limit_validation_witness:
  "userStates (at_step UploadLimit (Some album_draft)) (js ''42'')
     = Some \<lparr>step = UploadLimit, eventData = Some album_draft\<rparr>
   \<and> parseInt (js ''abc'') = None
   \<and> on_text all_up (js ''42'') (js ''abc'') (at_step UploadLimit (Some album_draft))
       = (at_step UploadLimit (Some album_draft), Reply EnterNumber)
   \<and> parseInt (js ''0'') = Some 0
   \<and> on_text all_up (js ''42'') (js ''0'') (at_step UploadLimit (Some album_draft))
       = (at_step UploadLimit (Some album_draft), Reply EnterNumber)
   \<and> is_decimal (js ''21'') \<and> 20 < decimal_value (js ''21'')
   \<and> on_text all_up (js ''42'') (js ''21'') (at_step UploadLimit (Some album_draft))
       = (at_step UploadLimit (Some album_draft), Reply EnterNumber)
   \<and> userStates (fst (on_text all_up (js ''42'') (js ''1'')
                        (at_step UploadLimit (Some album_draft)))) (js ''42'')
       = Some \<lparr>step = PreloadedPhotos,
               eventData = Some (album_draft\<lparr>draft_uploadLimit := Some 1\<rparr>)\<rparr>
   \<and> userStates (fst (on_text all_up (js ''42'') (js ''20'')
                        (at_step UploadLimit (Some album_draft)))) (js ''42'')
       = Some \<lparr>step = PreloadedPhotos,
               eventData = Some (album_draft\<lparr>draft_uploadLimit := Some 20\<rparr>)\<rparr>
   \<and> parseInt (js ''7.9'') = Some 7
   \<and> userStates (fst (on_text all_up (js ''42'') (js ''7.9'')
                        (at_step UploadLimit (Some album_draft)))) (js ''42'')
       = Some \<lparr>step = PreloadedPhotos,
               eventData = Some (album_draft\<lparr>draft_uploadLimit := Some 7\<rparr>)\<rparr>"
proof -
  have s: "userStates (at_step UploadLimit (Some album_draft)) (js ''42'')
             = Some \<lparr>step = UploadLimit, eventData = Some album_draft\<rparr>"
    by (simp add: at_step_def)
  have st: "step \<lparr>step = UploadLimit, eventData = Some album_draft\<rparr> = UploadLimit"
    by simp
  have pa: "parseInt (js ''abc'') = None" by (simp add: parse_defs)
  have p0: "parseInt (js ''0'') = Some 0" by (simp add: parse_defs)
  have p7: "parseInt (js ''7.9'') = Some 7" by (simp add: parse_defs)
  have d21: "is_decimal (js ''21'')" "decimal_value (js ''21'') = 21"
    by (simp_all add: is_decimal_def decimal_value_def js_def)
  have u: "userStates (set_state k v \<sigma>) k = Some v" for k v \<sigma>
    by (simp add: set_state_def)
  from upload_limit_validation [OF s st, of "js ''abc''" all_up]
    upload_limit_validation [OF s st, of "js ''0''" all_up]
    upload_limit_validation [OF s st, of "js ''21''" all_up]
    upload_limit_validation [OF s st, of "js ''7.9''" all_up]
    s pa p0 p7 d21
  show ?thesis by (simp add: u)
qed

text \<open>
  What \<^verbatim>\<open>parseInt\<close> counts as parsing: the number is read from the front of the
  text, so trailing characters, a fraction and a hexadecimal prefix do not make it fail.
\<close>

lemma parseInt_reads_a_prefix: "parseInt (js ''5abc'') = Some 5 \<and> parseInt (js ''0x14'') = Some 20
   \<and> parseInt (js '' 7.9'') = Some 7"
  by (simp add: parse_defs)


subsection \<open>The event route\<close>

text \<open>
  Claim C8. For every existing Event the \<^verbatim>\<open>uploadEnabled\<close> flag of the event
  route's answer is true exactly when the Event's \<^verbatim>\<open>status\<close> is active and its
  \<^verbatim>\<open>serviceType\<close> is not \<^verbatim>\<open>viewalbum\<close>; in every other combination it is false.
\<close>

theorem upload_enabled_flag:
  assumes "db_ok e 0" and "db_ok e 1" and "db_ok e 2"
    and "findOne eid (events \<sigma>) = Some ev"
  shows "uploadEnabled (snd (get_event e eid \<sigma>))
           = Some (status ev = Active \<and> serviceType ev \<noteq> Viewalbum)"
  using assms by (simp add: get_event_def uploadEnabled_def)

theorem upload_enabled_flag_witness:
  "db_ok all_up 0 \<and> db_ok all_up 1 \<and> db_ok all_up 2
   \<and> findOne (js ''EVT_A1'') (events party_store) = Some party
   \<and> uploadEnabled (snd (get_event all_up (js ''EVT_A1'') party_store)) = Some True
   \<and> findOne (js ''EVT_A1'') (events album_store)
       = Some (party\<lparr>serviceType := Viewalbum\<rparr>)
   \<and> uploadEnabled (snd (get_event all_up (js ''EVT_A1'')
          album_store)) = Some False
   \<and> findOne (js ''EVT_A1'') (events disabled_store)
       = Some (party\<lparr>status := Disabled\<rparr>)
   \<and> uploadEnabled (snd (get_event all_up (js ''EVT_A1'')
          disabled_store)) = Some False"
proof -
  have o: "db_ok all_up 0" "db_ok all_up 1" "db_ok all_up 2"
    by (simp_all add: all_up_def)
  have f1: "findOne (js ''EVT_A1'') (events party_store) = Some party"
    by (simp add: findOne_def party_store_def party_def)
  have f2: "findOne (js ''EVT_A1'') (events album_store)
       = Some (party\<lparr>serviceType := Viewalbum\<rparr>)"
    by (simp add: findOne_def party_def album_store_def)
  have f3: "findOne (js ''EVT_A1'') (events disabled_store)
       = Some (party\<lparr>status := Disabled\<rparr>)"
    by (simp add: findOne_def party_def disabled_store_def)
  have p: "status party = Active" "serviceType party = Both"
    by (simp_all add: party_def)
  from upload_enabled_flag [OF o f1] upload_enabled_flag [OF o f2] upload_enabled_flag [OF o f3]
    o f1 f2 f3 p
  show ?thesis by simp
qed

subsection \<open>The upload route\<close>

text \<open>
  Claim C1, as the code has it. The admission checks of the upload route run in order
  and the first failure decides the answer, but the first three share one answer: when
  no Event has the id, or the Event is not active, or its \<^verbatim>\<open>serviceType\<close> is
  \<^verbatim>\<open>viewalbum\<close>, the answer is 400 with \<^verbatim>\<open>Uploads not allowed\<close>; otherwise, when
  the uploader's count of guest photos is not below \<^verbatim>\<open>uploadLimit\<close>, it is 400 with
  \<^verbatim>\<open>Upload limit reached\<close>. Nothing is stored in any of these cases.
\<close>

theorem upload_rejections:
  assumes "db_ok e 0"
  shows "(findOne (param_eventId req) (events \<sigma>) = None \<longrightarrow>
            upload_api e req \<sigma> = (\<sigma>, ErrorResponse 400 ''Uploads not allowed''))
       \<and> (\<forall>ev. findOne (param_eventId req) (events \<sigma>) = Some ev \<and> status ev \<noteq> Active \<longrightarrow>
            upload_api e req \<sigma> = (\<sigma>, ErrorResponse 400 ''Uploads not allowed''))
       \<and> (\<forall>ev. findOne (param_eventId req) (events \<sigma>) = Some ev \<and> status ev = Active
               \<and> serviceType ev = Viewalbum \<longrightarrow>
            upload_api e req \<sigma> = (\<sigma>, ErrorResponse 400 ''Uploads not allowed''))
       \<and> (\<forall>ev. findOne (param_eventId req) (events \<sigma>) = Some ev \<and> status ev = Active
               \<and> serviceType ev \<noteq> Viewalbum \<and> db_ok e 1
               \<and> \<not> int (guestUploadsCount (param_eventId req) (req_ip req) (photos \<sigma>))
                     < uploadLimit ev \<longrightarrow>
            upload_api e req \<sigma> = (\<sigma>, ErrorResponse 400 ''Upload limit reached''))"
proof -
  have ne: "s \<noteq> Active \<longleftrightarrow> s = Disabled" for s :: event_status
    by (cases s) simp_all
  from assms show ?thesis
    by (auto simp add: upload_api_def ne)
qed

text \<open>
  Claim C1 as stated fails: an unknown event id does not get a rejection of its own.
  The upload route answers it exactly as it answers a disabled Event, while the event
  route answers the same id with 404 and \<^verbatim>\<open>Event not found\<close>.
\<close>

theorem missing_event_answered_like_disabled:
  "findOne (param_eventId guest_request) (events no_store) = None
   \<and> snd (upload_api all_up guest_request no_store) = ErrorResponse 400 ''Uploads not allowed''
   \<and> snd (upload_api all_up guest_request disabled_store)
       = ErrorResponse 400 ''Uploads not allowed''
   \<and> snd (get_event all_up (param_eventId guest_request) no_store)
       = ErrorResponse 404 ''Event not found''"
  by (simp add: upload_api_def get_event_def findOne_def no_store_def disabled_store_def party_def
      guest_request_def all_up_def js_def)


theorem upload_rejections_witness:
  "db_ok all_up 0
   \<and> findOne (param_eventId guest_request) (events no_store) = None
   \<and> upload_api all_up guest_request no_store
       = (no_store, ErrorResponse 400 ''Uploads not allowed'')
   \<and> findOne (param_eventId guest_request) (events disabled_store)
       = Some (party\<lparr>status := Disabled\<rparr>)
   \<and> status (party\<lparr>status := Disabled\<rparr>) \<noteq> Active
   \<and> upload_api all_up guest_request disabled_store
       = (disabled_store, ErrorResponse 400 ''Uploads not allowed'')
   \<and> findOne (param_eventId guest_request) (events album_store)
       = Some (party\<lparr>serviceType := Viewalbum\<rparr>)
   \<and> status (party\<lparr>serviceType := Viewalbum\<rparr>) = Active
   \<and> serviceType (party\<lparr>serviceType := Viewalbum\<rparr>) = Viewalbum
   \<and> upload_api all_up guest_request album_store
       = (album_store, ErrorResponse 400 ''Uploads not allowed'')
   \<and> findOne (param_eventId guest_request) (events full_store) = Some party
   \<and> status party = Active \<and> serviceType party \<noteq> Viewalbum \<and> db_ok all_up 1
   \<and> \<not> int (guestUploadsCount (param_eventId guest_request) (req_ip guest_request)
               (photos full_store)) < uploadLimit party
   \<and> upload_api all_up guest_request full_store
       = (full_store, ErrorResponse 400 ''Upload limit reached'')"
proof -
  have o: "db_ok all_up 0" "db_ok all_up 1"
    by (simp_all add: all_up_def)
  have f0: "findOne (param_eventId guest_request) (events no_store) = None"
    by (simp add: findOne_def no_store_def)
  have f1: "findOne (param_eventId guest_request) (events disabled_store)
              = Some (party\<lparr>status := Disabled\<rparr>)"
    by (simp add: findOne_def disabled_store_def party_def guest_request_def)
  have f2: "findOne (param_eventId guest_request) (events album_store)
              = Some (party\<lparr>serviceType := Viewalbum\<rparr>)"
    by (simp add: findOne_def album_store_def party_def guest_request_def)
  have f3: "findOne (param_eventId guest_request) (events full_store) = Some party"
    by (simp add: findOne_def full_store_def party_def guest_request_def)
  have p: "status party = Active" "serviceType party = Both" "uploadLimit party = 2"
    by (simp_all add: party_def)
  have c: "guestUploadsCount (param_eventId guest_request) (req_ip guest_request)
             (photos full_store) = 2"
    by (simp add: guestUploadsCount_def full_store_def guest_photo_def guest_request_def)
  from upload_rejections [OF o(1), of guest_request no_store]
    upload_rejections [OF o(1), of guest_request disabled_store]
    upload_rejections [OF o(1), of guest_request album_store]
    upload_rejections [OF o(1), of guest_request full_store]
    o f0 f1 f2 f3 p c
  show ?thesis by simp
qed


lemma upload_admitted:
  assumes "storage_ok e req"
    and "findOne (param_eventId req) (events \<sigma>) = Some ev"
    and "status ev = Active" and "serviceType ev \<noteq> Viewalbum"
    and "int (guestUploadsCount (param_eventId req) (req_ip req) (photos \<sigma>)) < uploadLimit ev"
  shows "\<exists>p. upload_api e req \<sigma> = (\<sigma>\<lparr>photos := photos \<sigma> @ [p]\<rparr>, UploadSuccess p)
           \<and> photo_eventId p = param_eventId req \<and> uploadType p = Guest
           \<and> uploaderInfo p = Some \<lparr>ip = req_ip req, userAgent = req_userAgent req\<rparr>"
proof -
  from assms(1) obtain path r where
    ok: "db_ok e 0" "db_ok e 1" "db_ok e 2" "param_eventId req \<noteq> []"
    and f: "req_file req = Some path"
    and c: "cloudinary e = Some r" "public_id r \<noteq> []" "url r \<noteq> []"
    by (auto simp: storage_ok_def split: option.splits)
  with assms(2-5) show ?thesis
    by (simp add: upload_api_def save_Photo_def Let_def)
qed

lemma upload_over_quota:
  assumes "db_ok e 0" and "db_ok e 1"
    and "findOne (param_eventId req) (events \<sigma>) = Some ev"
    and "status ev = Active" and "serviceType ev \<noteq> Viewalbum"
    and "\<not> int (guestUploadsCount (param_eventId req) (req_ip req) (photos \<sigma>)) < uploadLimit ev"
  shows "upload_api e req \<sigma> = (\<sigma>, ErrorResponse 400 ''Upload limit reached'')"
  using assms by (simp add: upload_api_def)

lemma count_after_upload:
  assumes "photo_eventId p = eid" and "uploadType p = Guest"
    and "uploaderInfo p = Some \<lparr>ip = addr, userAgent = ua\<rparr>"
  shows "guestUploadsCount eid addr (ps @ [p]) = Suc (guestUploadsCount eid addr ps)"
  using assms by (simp add: guestUploadsCount_def)

lemma upload_not_rejected:
  assumes "db_ok e 0" and "db_ok e 1"
    and "findOne (param_eventId req) (events \<sigma>) = Some ev"
    and "status ev = Active" and "serviceType ev \<noteq> Viewalbum"
    and "int (guestUploadsCount (param_eventId req) (req_ip req) (photos \<sigma>)) < uploadLimit ev"
  shows "\<not> rejected (snd (upload_api e req \<sigma>))"
  using assms
  by (simp add: upload_api_def rejected_def save_Photo_def Let_def split: option.splits)

lemma three_submissions:
  fixes e e2 e3 :: env and req req2 req3 :: upload_request
  assumes f: "findOne (param_eventId req) (events \<sigma>) = Some ev"
    and a: "status ev = Active" "serviceType ev \<noteq> Viewalbum"
    and l: "uploadLimit ev = 2"
    and z: "guestUploadsCount (param_eventId req) (req_ip req) (photos \<sigma>) = 0"
    and s1: "storage_ok e req" and s2: "storage_ok e2 req2"
    and s3: "db_ok e3 0" "db_ok e3 1"
    and same2: "param_eventId req2 = param_eventId req" "req_ip req2 = req_ip req"
    and same3: "param_eventId req3 = param_eventId req" "req_ip req3 = req_ip req"
  shows "map succeeded (snd (submit_all [(e, req), (e2, req2), (e3, req3)] \<sigma>)) = [True, True, False]
       \<and> snd (submit_all [(e, req), (e2, req2), (e3, req3)] \<sigma>) ! 2
           = ErrorResponse 400 ''Upload limit reached''"
proof -
  from z l have c0: "int (guestUploadsCount (param_eventId req) (req_ip req) (photos \<sigma>)) < uploadLimit ev"
    by simp
  from upload_admitted [OF s1 f a c0] obtain p1 where
    u1': "upload_api e req \<sigma> = (\<sigma>\<lparr>photos := photos \<sigma> @ [p1]\<rparr>, UploadSuccess p1)"
    and p1: "photo_eventId p1 = param_eventId req" "uploadType p1 = Guest"
      "uploaderInfo p1 = Some \<lparr>ip = req_ip req, userAgent = req_userAgent req\<rparr>"
    by blast
  define \<sigma>1 where "\<sigma>1 = \<sigma>\<lparr>photos := photos \<sigma> @ [p1]\<rparr>"
  have u1: "upload_api e req \<sigma> = (\<sigma>1, UploadSuccess p1)"
    by (simp add: u1' \<sigma>1_def)
  have e1: "events \<sigma>1 = events \<sigma>" and ph1: "photos \<sigma>1 = photos \<sigma> @ [p1]"
    by (simp_all add: \<sigma>1_def)
  have f1: "findOne (param_eventId req2) (events \<sigma>1) = Some ev"
    using f same2 e1 by simp
  have n1: "guestUploadsCount (param_eventId req2) (req_ip req2) (photos \<sigma>1) = 1"
    using count_after_upload [OF p1, of "photos \<sigma>"] z same2 ph1 by simp
  then have c1: "int (guestUploadsCount (param_eventId req2) (req_ip req2) (photos \<sigma>1)) < uploadLimit ev"
    using l by simp
  from upload_admitted [OF s2 f1 a c1] obtain p2 where
    u2': "upload_api e2 req2 \<sigma>1 = (\<sigma>1\<lparr>photos := photos \<sigma>1 @ [p2]\<rparr>, UploadSuccess p2)"
    and p2: "photo_eventId p2 = param_eventId req2" "uploadType p2 = Guest"
      "uploaderInfo p2 = Some \<lparr>ip = req_ip req2, userAgent = req_userAgent req2\<rparr>"
    by blast
  define \<sigma>2 where "\<sigma>2 = \<sigma>1\<lparr>photos := photos \<sigma>1 @ [p2]\<rparr>"
  have u2: "upload_api e2 req2 \<sigma>1 = (\<sigma>2, UploadSuccess p2)"
    by (simp add: u2' \<sigma>2_def)
  have e2: "events \<sigma>2 = events \<sigma>1" and ph2: "photos \<sigma>2 = photos \<sigma>1 @ [p2]"
    by (simp_all add: \<sigma>2_def)
  have f2: "findOne (param_eventId req3) (events \<sigma>2) = Some ev"
    using f same3 e1 e2 by simp
  have n2: "guestUploadsCount (param_eventId req3) (req_ip req3) (photos \<sigma>2) = 2"
    using count_after_upload [OF p2, of "photos \<sigma>1"] n1 same2 same3 ph2 by simp
  then have c2: "\<not> int (guestUploadsCount (param_eventId req3) (req_ip req3) (photos \<sigma>2)) < uploadLimit ev"
    using l by simp
  have u3: "upload_api e3 req3 \<sigma>2 = (\<sigma>2, ErrorResponse 400 ''Upload limit reached'')"
    by (rule upload_over_quota [OF s3 f2 a c2])
  show ?thesis
    by (simp add: u1 u2 u3 succeeded_def)
qed

text \<open>
  Claim C2, as the code has it. For every Event that is active and whose
  \<^verbatim>\<open>serviceType\<close> is not \<^verbatim>\<open>viewalbum\<close>, and every uploader address, a guest
  submission is not rejected exactly when the number of guest Photos already stored for
  that event id and address is strictly below the Event's \<^verbatim>\<open>uploadLimit\<close>; otherwise
  the answer is \<^verbatim>\<open>Upload limit reached\<close>. For such an Event with limit 2 and no earlier
  upload, the first and the second submission of one address succeed when storage works,
  whatever the file and the stored image are, and the third is answered
  \<^verbatim>\<open>Upload limit reached\<close>.
\<close>

theorem quota_admission:
  fixes e :: env and req :: upload_request
  assumes "db_ok e 0" and "db_ok e 1"
    and "findOne (param_eventId req) (events \<sigma>) = Some ev"
    and "status ev = Active" and "serviceType ev \<noteq> Viewalbum"
  shows "(\<not> rejected (snd (upload_api e req \<sigma>))
            \<longleftrightarrow> int (guestUploadsCount (param_eventId req) (req_ip req) (photos \<sigma>))
                  < uploadLimit ev)
       \<and> (\<not> int (guestUploadsCount (param_eventId req) (req_ip req) (photos \<sigma>)) < uploadLimit ev
            \<longrightarrow> upload_api e req \<sigma> = (\<sigma>, ErrorResponse 400 ''Upload limit reached''))
       \<and> (\<forall>(e2 :: env) (req2 :: upload_request) (e3 :: env) (req3 :: upload_request).
            uploadLimit ev = 2
            \<and> guestUploadsCount (param_eventId req) (req_ip req) (photos \<sigma>) = 0
            \<and> storage_ok e req \<and> storage_ok e2 req2 \<and> db_ok e3 0 \<and> db_ok e3 1
            \<and> param_eventId req2 = param_eventId req \<and> req_ip req2 = req_ip req
            \<and> param_eventId req3 = param_eventId req \<and> req_ip req3 = req_ip req
            \<longrightarrow> map succeeded (snd (submit_all [(e, req), (e2, req2), (e3, req3)] \<sigma>))
                  = [True, True, False]
                \<and> snd (submit_all [(e, req), (e2, req2), (e3, req3)] \<sigma>) ! 2
                  = ErrorResponse 400 ''Upload limit reached'')"
proof (intro conjI allI impI)
  show "(\<not> rejected (snd (upload_api e req \<sigma>)))
          = (int (guestUploadsCount (param_eventId req) (req_ip req) (photos \<sigma>)) < uploadLimit ev)"
  proof (cases "int (guestUploadsCount (param_eventId req) (req_ip req) (photos \<sigma>)) < uploadLimit ev")
    case True
    with upload_not_rejected [OF assms] show ?thesis by simp
  next
    case False
    with upload_over_quota [OF assms] show ?thesis by (simp add: rejected_def)
  qed
next
  assume "\<not> int (guestUploadsCount (param_eventId req) (req_ip req) (photos \<sigma>)) < uploadLimit ev"
  then show "upload_api e req \<sigma> = (\<sigma>, ErrorResponse 400 ''Upload limit reached'')"
    by (rule upload_over_quota [OF assms])
next
  fix e2 e3 :: env and req2 req3 :: upload_request
  assume h: "uploadLimit ev = 2
            \<and> guestUploadsCount (param_eventId req) (req_ip req) (photos \<sigma>) = 0
            \<and> storage_ok e req \<and> storage_ok e2 req2 \<and> db_ok e3 0 \<and> db_ok e3 1
            \<and> param_eventId req2 = param_eventId req \<and> req_ip req2 = req_ip req
            \<and> param_eventId req3 = param_eventId req \<and> req_ip req3 = req_ip req"
  with three_submissions [OF assms(3-5), of e e2 req2 e3 req3]
  show "map succeeded (snd (submit_all [(e, req), (e2, req2), (e3, req3)] \<sigma>)) = [True, True, False]"
    and "snd (submit_all [(e, req), (e2, req2), (e3, req3)] \<sigma>) ! 2
           = ErrorResponse 400 ''Upload limit reached''"
    by simp_all
qed

text \<open>
  Claim C2 as stated, for every Event, fails: a disabled Event rejects a submission of
  an uploader whose count is below the limit.
\<close>

theorem quota_ignored_when_disabled:
  "int (guestUploadsCount (param_eventId guest_request) (req_ip guest_request)
          (photos disabled_store)) < uploadLimit (party\<lparr>status := Disabled\<rparr>)
   \<and> findOne (param_eventId guest_request) (events disabled_store)
       = Some (party\<lparr>status := Disabled\<rparr>)
   \<and> rejected (snd (upload_api all_up guest_request disabled_store))"
  by (simp add: upload_api_def rejected_def findOne_def guestUploadsCount_def disabled_store_def
      party_def guest_request_def all_up_def js_def)


theorem quota_admission_witness:
  "db_ok all_up 0 \<and> db_ok all_up 1
   \<and> findOne (param_eventId guest_request) (events party_store) = Some party
   \<and> findOne (param_eventId guest_request) (events full_store) = Some party
   \<and> status party = Active \<and> serviceType party \<noteq> Viewalbum \<and> uploadLimit party = 2
   \<and> int (guestUploadsCount (param_eventId guest_request) (req_ip guest_request)
            (photos party_store)) < uploadLimit party
   \<and> \<not> rejected (snd (upload_api all_up guest_request party_store))
   \<and> \<not> int (guestUploadsCount (param_eventId guest_request) (req_ip guest_request)
              (photos full_store)) < uploadLimit party
   \<and> upload_api all_up guest_request full_store
       = (full_store, ErrorResponse 400 ''Upload limit reached'')
   \<and> guestUploadsCount (param_eventId guest_request) (req_ip guest_request)
        (photos party_store) = 0
   \<and> storage_ok all_up guest_request
   \<and> storage_ok all_up (guest_request\<lparr>req_file := Some (js ''uploads/f2'')\<rparr>)
   \<and> map succeeded
        (snd (submit_all
               [(all_up, guest_request),
                (all_up, guest_request\<lparr>req_file := Some (js ''uploads/f2'')\<rparr>),
                (all_up, guest_request\<lparr>req_file := None\<rparr>)] party_store))
       = [True, True, False]
   \<and> snd (submit_all
             [(all_up, guest_request),
              (all_up, guest_request\<lparr>req_file := Some (js ''uploads/f2'')\<rparr>),
              (all_up, guest_request\<lparr>req_file := None\<rparr>)] party_store) ! 2
       = ErrorResponse 400 ''Upload limit reached''"
proof -
  have o: "db_ok all_up 0" "db_ok all_up 1"
    by (simp_all add: all_up_def)
  have f1: "findOne (param_eventId guest_request) (events party_store) = Some party"
    by (simp add: findOne_def party_store_def party_def guest_request_def)
  have f2: "findOne (param_eventId guest_request) (events full_store) = Some party"
    by (simp add: findOne_def full_store_def party_def guest_request_def)
  have p: "status party = Active" "serviceType party \<noteq> Viewalbum" "uploadLimit party = 2"
    by (simp_all add: party_def)
  have c0: "guestUploadsCount (param_eventId guest_request) (req_ip guest_request)
              (photos party_store) = 0"
    by (simp add: guestUploadsCount_def party_store_def)
  have c2: "guestUploadsCount (param_eventId guest_request) (req_ip guest_request)
              (photos full_store) = 2"
    by (simp add: guestUploadsCount_def full_store_def guest_photo_def guest_request_def)
  have s: "storage_ok all_up guest_request"
    "storage_ok all_up (guest_request\<lparr>req_file := Some (js ''uploads/f2'')\<rparr>)"
    by (simp_all add: storage_ok_def all_up_def guest_request_def js_def)
  from quota_admission [OF o f1 p(1,2)] quota_admission [OF o f2 p(1,2)]
    o f1 f2 p c0 c2 s
  show ?thesis by simp
qed


subsection \<open>Finalization\<close>

lemma save_preloaded_all:
  assumes "eid \<noteq> []"
    and "list_all (\<lambda>r. public_id r \<noteq> [] \<and> url r \<noteq> []) rs"
    and "\<forall>k < length rs. db_ok e (n + k)"
  shows "save_preloaded e n eid rs \<sigma>
           = (\<sigma>\<lparr>photos := photos \<sigma> @ preloaded_Photos e n eid rs\<rparr>, True)"
  using assms
proof (induction rs arbitrary: n \<sigma>)
  case Nil
  then show ?case by (simp add: preloaded_Photos_def)
next
  case (Cons r rs)
  from Cons.prems(3) have here: "db_ok e n" and later: "\<forall>k < length rs. db_ok e (Suc n + k)"
    by fastforce+
  from Cons.prems(1,2) here have
    s: "save_Photo e n (preloaded_Photo (clock e n) eid r) \<sigma>
          = Some (\<sigma>\<lparr>photos := photos \<sigma> @ [preloaded_Photo (clock e n) eid r]\<rparr>)"
    by (simp add: save_Photo_def preloaded_Photo_def)
  from Cons.prems(2) have "list_all (\<lambda>r. public_id r \<noteq> [] \<and> url r \<noteq> []) rs"
    by simp
  from Cons.IH [OF Cons.prems(1) this later] s show ?case
    by (simp add: preloaded_Photos_def)
qed

lemma save_preloaded_fails_at:
  assumes "eid \<noteq> []"
    and "list_all (\<lambda>r. public_id r \<noteq> [] \<and> url r \<noteq> []) rs"
    and "k < length rs" and "\<forall>j < k. db_ok e (n + j)" and "\<not> db_ok e (n + k)"
  shows "save_preloaded e n eid rs \<sigma>
           = (\<sigma>\<lparr>photos := photos \<sigma> @ preloaded_Photos e n eid (take k rs)\<rparr>, False)"
  using assms
proof (induction rs arbitrary: n k \<sigma>)
  case Nil
  then show ?case by simp
next
  case (Cons r rs)
  show ?case
  proof (cases k)
    case 0
    with Cons.prems(5) show ?thesis
      by (simp add: save_Photo_def preloaded_Photos_def)
  next
    case (Suc k')
    with Cons.prems(4) have here: "db_ok e n" and later: "\<forall>j < k'. db_ok e (Suc n + j)"
      by fastforce+
    from Cons.prems(1,2) here have
      s: "save_Photo e n (preloaded_Photo (clock e n) eid r) \<sigma>
            = Some (\<sigma>\<lparr>photos := photos \<sigma> @ [preloaded_Photo (clock e n) eid r]\<rparr>)"
      by (simp add: save_Photo_def preloaded_Photo_def)
    from Cons.prems(2) have v: "list_all (\<lambda>r. public_id r \<noteq> [] \<and> url r \<noteq> []) rs"
      by simp
    from Cons.prems(3,5) Suc have "k' < length rs" "\<not> db_ok e (Suc n + k')"
      by simp_all
    from Cons.IH [OF Cons.prems(1) v this(1) later this(2)] s Suc show ?thesis
      by (simp add: preloaded_Photos_def)
  qed
qed

lemma new_Event_fully_collected:
  assumes "fully_collected d"
  shows "\<exists>ev. new_Event now d = Some ev \<and> eventId ev = draft_eventId d \<and> status ev = Active
            \<and> length (preloadedPhotos ev) = length (collected d)"
  using assms
  by (auto simp: fully_collected_def new_Event_def castServiceType_def collected_def Let_def
      split: option.splits)

lemma preloaded_Photos_tagged:
  "length (preloaded_Photos e n eid rs) = length rs
   \<and> list_all (\<lambda>p. uploadType p = Preloaded \<and> photo_eventId p = eid) (preloaded_Photos e n eid rs)"
  by (induction rs arbitrary: n) (simp_all add: preloaded_Photos_def preloaded_Photo_def)

lemma finalize_success:
  assumes d: "eventData userState = Some d" and fc: "fully_collected d"
    and fresh: "draft_eventId d \<notin> set (map eventId (events \<sigma>))"
    and ok: "\<forall>k \<le> length (collected d). db_ok e k"
    and ev: "new_Event (clock e 0) d = Some ev"
  shows "finalize e userState \<sigma>
           = (\<sigma>\<lparr>events := events \<sigma> @ [ev],
                 photos := photos \<sigma> @ preloaded_Photos e 1 (draft_eventId d) (collected d)\<rparr>,
              EventComplete (draft_eventId d))"
proof -
  from new_Event_fully_collected [OF fc, of "clock e 0"] ev
  have id: "eventId ev = draft_eventId d" by simp
  from ok have ok0: "db_ok e 0" by simp
  with fresh id have se: "save_Event e 0 ev \<sigma> = Some (\<sigma>\<lparr>events := events \<sigma> @ [ev]\<rparr>)"
    by (simp add: save_Event_def)
  show ?thesis
  proof (cases "draft_preloadedPhotos d")
    case None
    with d ev se show ?thesis
      by (simp add: finalize_def collected_def preloaded_Photos_def)
  next
    case (Some rs)
    from fc have ne: "draft_eventId d \<noteq> []"
      and v: "list_all (\<lambda>r. public_id r \<noteq> [] \<and> url r \<noteq> []) rs"
      by (simp_all add: fully_collected_def Some)
    from ok Some have "\<forall>k < length rs. db_ok e (1 + k)"
      by (simp add: collected_def)
    from save_preloaded_all [OF ne v this, of "\<sigma>\<lparr>events := events \<sigma> @ [ev]\<rparr>"]
    show ?thesis using d ev se Some
      by (simp add: finalize_def collected_def)
  qed
qed

text \<open>
  The handler of the completion command, called on a session in step
  \<^verbatim>\<open>preloadedPhotos\<close> whose draft is fully collected (the database answering every
  save and the event id being new to the store): exactly one Event is appended, carrying
  the draft's \<^verbatim>\<open>eventId\<close>, and exactly one Photo per collected image, each with
  \<^verbatim>\<open>uploadType\<close> preloaded and the draft's \<^verbatim>\<open>eventId\<close>; the session is removed and
  the completion message is sent. Called in any other step, or without a session, the
  handler changes nothing and sends nothing.
\<close>

lemma done_finalizes:
  "(userStates \<sigma> userId = Some userState \<and> step userState = PreloadedPhotos
      \<and> eventData userState = Some d \<and> fully_collected d
      \<and> draft_eventId d \<notin> set (map eventId (events \<sigma>))
      \<and> (\<forall>k \<le> length (collected d). db_ok e k)
    \<longrightarrow> (\<exists>ev. new_Event (clock e 0) d = Some ev \<and> eventId ev = draft_eventId d
            \<and> done_cmd e userId \<sigma>
                = (delete_state userId
                     (\<sigma>\<lparr>events := events \<sigma> @ [ev],
                         photos := photos \<sigma>
                           @ preloaded_Photos e 1 (draft_eventId d) (collected d)\<rparr>),
                   Reply (EventComplete (draft_eventId d))))
        \<and> length (preloaded_Photos e 1 (draft_eventId d) (collected d)) = length (collected d)
        \<and> list_all (\<lambda>p. uploadType p = Preloaded \<and> photo_eventId p = draft_eventId d)
             (preloaded_Photos e 1 (draft_eventId d) (collected d)))
   \<and> (userStates \<sigma> userId = Some userState \<and> step userState \<noteq> PreloadedPhotos
        \<longrightarrow> done_cmd e userId \<sigma> = (\<sigma>, Silent))
   \<and> (userStates \<sigma> userId = None \<longrightarrow> done_cmd e userId \<sigma> = (\<sigma>, Silent))"
proof (intro conjI impI)
  assume h: "userStates \<sigma> userId = Some userState \<and> step userState = PreloadedPhotos
      \<and> eventData userState = Some d \<and> fully_collected d
      \<and> draft_eventId d \<notin> set (map eventId (events \<sigma>))
      \<and> (\<forall>k \<le> length (collected d). db_ok e k)"
  from h new_Event_fully_collected [of d "clock e 0"] obtain ev where
    ev: "new_Event (clock e 0) d = Some ev" and id: "eventId ev = draft_eventId d"
    by blast
  from h finalize_success [of userState d \<sigma> e ev] ev
  have "done_cmd e userId \<sigma>
                = (delete_state userId
                     (\<sigma>\<lparr>events := events \<sigma> @ [ev],
                         photos := photos \<sigma>
                           @ preloaded_Photos e 1 (draft_eventId d) (collected d)\<rparr>),
                   Reply (EventComplete (draft_eventId d)))"
    by (simp add: done_cmd_def)
  with ev id show "\<exists>ev. new_Event (clock e 0) d = Some ev \<and> eventId ev = draft_eventId d
            \<and> done_cmd e userId \<sigma>
                = (delete_state userId
                     (\<sigma>\<lparr>events := events \<sigma> @ [ev],
                         photos := photos \<sigma>
                           @ preloaded_Photos e 1 (draft_eventId d) (collected d)\<rparr>),
                   Reply (EventComplete (draft_eventId d)))"
    by blast
next
  show "length (preloaded_Photos e 1 (draft_eventId d) (collected d)) = length (collected d)"
    using preloaded_Photos_tagged [of e 1 "draft_eventId d" "collected d"] by simp
next
  show "list_all (\<lambda>p. uploadType p = Preloaded \<and> photo_eventId p = draft_eventId d)
             (preloaded_Photos e 1 (draft_eventId d) (collected d))"
    using preloaded_Photos_tagged [of e 1 "draft_eventId d" "collected d"] by simp
next
  assume "userStates \<sigma> userId = Some userState \<and> step userState \<noteq> PreloadedPhotos"
  then show "done_cmd e userId \<sigma> = (\<sigma>, Silent)"
    by (simp add: done_cmd_def)
next
  assume "userStates \<sigma> userId = None"
  then show "done_cmd e userId \<sigma> = (\<sigma>, Silent)"
    by (simp add: done_cmd_def)
qed


lemmas flow_defs = creation_flow_def flow_draft_def all_up_def no_store_def start_cmd_def
  generateEventId_def toUpperCase_def on_text_def on_photo_def set_state_def

lemma creation_flow_reaches:
  "userStates (run creation_flow no_store) (js ''42'')
     = Some \<lparr>step = PreloadedPhotos, eventData = Some flow_draft\<rparr>
   \<and> events (run creation_flow no_store) = [] \<and> photos (run creation_flow no_store) = []"
  by (simp add: flow_defs parse_defs)


lemma flow_draft_collected:
  "fully_collected flow_draft \<and> draft_eventId flow_draft = js ''EVT_B2X7K9Q1Z''
   \<and> collected flow_draft = [\<lparr>public_id = js ''p2'', url = js ''u2''\<rparr>,
                              \<lparr>public_id = js ''p3'', url = js ''u3''\<rparr>]"
  by (simp add: fully_collected_def collected_def flow_draft_def js_def)

lemma done_finalizes_witness:
  "userStates (run creation_flow no_store) (js ''42'')
     = Some \<lparr>step = PreloadedPhotos, eventData = Some flow_draft\<rparr>
   \<and> fully_collected flow_draft
   \<and> draft_eventId flow_draft \<notin> set (map eventId (events (run creation_flow no_store)))
   \<and> db_ok all_up 0 \<and> db_ok all_up 1 \<and> db_ok all_up 2
   \<and> map eventId (events (fst (done_cmd all_up (js ''42'') (run creation_flow no_store))))
       = [js ''EVT_B2X7K9Q1Z'']
   \<and> map (\<lambda>p. (photo_eventId p, photo_public_id p, uploadType p))
        (photos (fst (done_cmd all_up (js ''42'') (run creation_flow no_store))))
       = [(js ''EVT_B2X7K9Q1Z'', js ''p2'', Preloaded), (js ''EVT_B2X7K9Q1Z'', js ''p3'', Preloaded)]
   \<and> userStates (fst (done_cmd all_up (js ''42'') (run creation_flow no_store))) (js ''42'') = None
   \<and> snd (done_cmd all_up (js ''42'') (run creation_flow no_store))
       = Reply (EventComplete (js ''EVT_B2X7K9Q1Z''))
   \<and> userStates (at_step UploadLimit (Some album_draft)) (js ''42'')
       = Some \<lparr>step = UploadLimit, eventData = Some album_draft\<rparr>
   \<and> done_cmd all_up (js ''42'') (at_step UploadLimit (Some album_draft))
       = (at_step UploadLimit (Some album_draft), Silent)
   \<and> userStates no_store (js ''42'') = None
   \<and> done_cmd all_up (js ''42'') no_store = (no_store, Silent)"
proof -
  let ?\<sigma> = "run creation_flow no_store"
  let ?us = "\<lparr>step = PreloadedPhotos, eventData = Some flow_draft\<rparr>"
  have s: "userStates ?\<sigma> (js ''42'') = Some ?us" and ev: "events ?\<sigma> = []"
    and ph: "photos ?\<sigma> = []"
    using creation_flow_reaches by simp_all
  have ok: "db_ok all_up k" for k
    by (simp add: all_up_def)
  have cl: "clock all_up k = 1000 + int k" for k
    by (simp add: all_up_def)
  have u: "userStates (at_step UploadLimit (Some album_draft)) (js ''42'')
       = Some \<lparr>step = UploadLimit, eventData = Some album_draft\<rparr>"
    by (simp add: at_step_def)
  have n: "userStates no_store (js ''42'') = None"
    by (simp add: no_store_def)
  from done_finalizes [of ?\<sigma> "js ''42''" ?us flow_draft all_up] s ev ok flow_draft_collected
  obtain e1 where e1: "eventId e1 = draft_eventId flow_draft"
    and d: "done_cmd all_up (js ''42'') ?\<sigma>
              = (delete_state (js ''42'')
                   (?\<sigma>\<lparr>events := events ?\<sigma> @ [e1],
                        photos := photos ?\<sigma>
                          @ preloaded_Photos all_up 1 (draft_eventId flow_draft)
                              (collected flow_draft)\<rparr>),
                 Reply (EventComplete (draft_eventId flow_draft)))"
    by auto
  have a: "map eventId (events (fst (done_cmd all_up (js ''42'') ?\<sigma>))) = [js ''EVT_B2X7K9Q1Z'']"
    by (simp add: d delete_state_def ev e1 flow_draft_collected)
  have b: "map (\<lambda>p. (photo_eventId p, photo_public_id p, uploadType p))
        (photos (fst (done_cmd all_up (js ''42'') ?\<sigma>)))
       = [(js ''EVT_B2X7K9Q1Z'', js ''p2'', Preloaded), (js ''EVT_B2X7K9Q1Z'', js ''p3'', Preloaded)]"
    by (simp add: d delete_state_def ph flow_draft_collected preloaded_Photos_def
        preloaded_Photo_def)
  have c: "userStates (fst (done_cmd all_up (js ''42'') ?\<sigma>)) (js ''42'') = None"
    by (simp add: d delete_state_def)
  have r: "snd (done_cmd all_up (js ''42'') ?\<sigma>) = Reply (EventComplete (js ''EVT_B2X7K9Q1Z''))"
    by (simp add: d flow_draft_collected)
  from done_finalizes [of "at_step UploadLimit (Some album_draft)" "js ''42''"
      "\<lparr>step = UploadLimit, eventData = Some album_draft\<rparr>" album_draft all_up] u
  have x: "done_cmd all_up (js ''42'') (at_step UploadLimit (Some album_draft))
       = (at_step UploadLimit (Some album_draft), Silent)"
    by simp
  from done_finalizes [of no_store "js ''42''" ?us flow_draft all_up] n
  have y: "done_cmd all_up (js ''42'') no_store = (no_store, Silent)"
    by simp
  from s ev ok flow_draft_collected a b c r u x n y show ?thesis
    by simp
qed

lemma finalize_event_save_fails:
  assumes "case eventData userState of None \<Rightarrow> True
           | Some d \<Rightarrow> new_Event (clock e 0) d = None \<or> \<not> db_ok e 0
                       \<or> draft_eventId d \<in> set (map eventId (events \<sigma>))"
  shows "finalize e userState \<sigma> = (\<sigma>, FailedToCreate)"
proof (cases "eventData userState")
  case None
  then show ?thesis by (simp add: finalize_def)
next
  case (Some d)
  show ?thesis
  proof (cases "new_Event (clock e 0) d")
    case None
    with Some show ?thesis by (simp add: finalize_def)
  next
    case ev: (Some ev)
    have "eventId ev = draft_eventId d"
      using ev by (auto simp: new_Event_def Let_def split: option.splits if_splits)
    with assms Some ev have "save_Event e 0 ev \<sigma> = None"
      by (auto simp: save_Event_def)
    with Some ev show ?thesis by (simp add: finalize_def)
  qed
qed

lemma finalize_photo_save_fails:
  assumes d: "eventData userState = Some d" and fc: "fully_collected d"
    and fresh: "draft_eventId d \<notin> set (map eventId (events \<sigma>))"
    and k: "k < length (collected d)"
    and ok: "\<forall>j \<le> k. db_ok e j" and bad: "\<not> db_ok e (Suc k)"
    and ev: "new_Event (clock e 0) d = Some ev"
  shows "finalize e userState \<sigma>
           = (\<sigma>\<lparr>events := events \<sigma> @ [ev],
                 photos := photos \<sigma>
                   @ preloaded_Photos e 1 (draft_eventId d) (take k (collected d))\<rparr>,
              FailedToCreate)"
proof -
  from new_Event_fully_collected [OF fc, of "clock e 0"] ev
  have id: "eventId ev = draft_eventId d" by simp
  from ok have ok0: "db_ok e 0" by simp
  with fresh id have se: "save_Event e 0 ev \<sigma> = Some (\<sigma>\<lparr>events := events \<sigma> @ [ev]\<rparr>)"
    by (simp add: save_Event_def)
  from k obtain rs where rs: "draft_preloadedPhotos d = Some rs" and c: "collected d = rs"
    by (cases "draft_preloadedPhotos d") (simp_all add: collected_def)
  from fc have ne: "draft_eventId d \<noteq> []"
    and v: "list_all (\<lambda>r. public_id r \<noteq> [] \<and> url r \<noteq> []) rs"
    by (simp_all add: fully_collected_def rs)
  from ok have before: "\<forall>j < k. db_ok e (1 + j)"
    by simp
  from bad have here: "\<not> db_ok e (1 + k)"
    by simp
  from k c have "k < length rs" by simp
  from save_preloaded_fails_at [OF ne v this before here, of "\<sigma>\<lparr>events := events \<sigma> @ [ev]\<rparr>"]
  show ?thesis using d ev se rs c
    by (simp add: finalize_def)
qed

text \<open>
  Claim C4, as the code has it. Whatever happens during finalization, the session is
  removed. When the save of the Event fails (validation, the database, or an id already
  stored), the store is left as it was and the failure message is sent. When the Event
  is saved and the save of a preloaded Photo fails, the failure message is sent as well,
  but nothing is undone: the Event and the Photos saved before the failing one stay in
  the store.
\<close>

theorem done_failure_effects:
  assumes "userStates \<sigma> userId = Some userState" and "step userState = PreloadedPhotos"
  shows "userStates (fst (done_cmd e userId \<sigma>)) = (userStates \<sigma>)(userId := None)
       \<and> ((case eventData userState of None \<Rightarrow> True
            | Some d \<Rightarrow> new_Event (clock e 0) d = None \<or> \<not> db_ok e 0
                        \<or> draft_eventId d \<in> set (map eventId (events \<sigma>)))
           \<longrightarrow> done_cmd e userId \<sigma> = (delete_state userId \<sigma>, Reply FailedToCreate))
       \<and> (\<forall>d k. eventData userState = Some d \<and> fully_collected d
                \<and> draft_eventId d \<notin> set (map eventId (events \<sigma>))
                \<and> k < length (collected d) \<and> (\<forall>j \<le> k. db_ok e j) \<and> \<not> db_ok e (Suc k)
           \<longrightarrow> (\<exists>ev. new_Event (clock e 0) d = Some ev
                  \<and> done_cmd e userId \<sigma>
                      = (delete_state userId
                           (\<sigma>\<lparr>events := events \<sigma> @ [ev],
                               photos := photos \<sigma>
                                 @ preloaded_Photos e 1 (draft_eventId d)
                                     (take k (collected d))\<rparr>),
                         Reply FailedToCreate)))"
proof (intro conjI impI allI)
  obtain \<sigma>' r where f: "finalize e userState \<sigma> = (\<sigma>', r)"
    by (cases "finalize e userState \<sigma>")
  with finalize_userStates [of e userState \<sigma>] have "userStates \<sigma>' = userStates \<sigma>"
    by simp
  with f assms
  show "userStates (fst (done_cmd e userId \<sigma>)) = (userStates \<sigma>)(userId := None)"
    by (simp add: done_cmd_def delete_state_def)
next
  assume "case eventData userState of None \<Rightarrow> True
            | Some d \<Rightarrow> new_Event (clock e 0) d = None \<or> \<not> db_ok e 0
                        \<or> draft_eventId d \<in> set (map eventId (events \<sigma>))"
  from finalize_event_save_fails [OF this] assms
  show "done_cmd e userId \<sigma> = (delete_state userId \<sigma>, Reply FailedToCreate)"
    by (simp add: done_cmd_def)
next
  fix d k
  assume h: "eventData userState = Some d \<and> fully_collected d
                \<and> draft_eventId d \<notin> set (map eventId (events \<sigma>))
                \<and> k < length (collected d) \<and> (\<forall>j \<le> k. db_ok e j) \<and> \<not> db_ok e (Suc k)"
  from h new_Event_fully_collected [of d "clock e 0"] obtain ev where
    ev: "new_Event (clock e 0) d = Some ev"
    by blast
  from h finalize_photo_save_fails [of userState d \<sigma> k e ev] ev assms
  have "done_cmd e userId \<sigma>
                      = (delete_state userId
                           (\<sigma>\<lparr>events := events \<sigma> @ [ev],
                               photos := photos \<sigma>
                                 @ preloaded_Photos e 1 (draft_eventId d)
                                     (take k (collected d))\<rparr>),
                         Reply FailedToCreate)"
    by (simp add: done_cmd_def)
  with ev show "\<exists>ev. new_Event (clock e 0) d = Some ev
                  \<and> done_cmd e userId \<sigma>
                      = (delete_state userId
                           (\<sigma>\<lparr>events := events \<sigma> @ [ev],
                               photos := photos \<sigma>
                                 @ preloaded_Photos e 1 (draft_eventId d)
                                     (take k (collected d))\<rparr>),
                         Reply FailedToCreate)"
    by blast
qed

text \<open>
  Claim C4 as stated fails: after the dialogue \<open>creation_flow\<close>, with the database
  refusing the save of the second preloaded Photo, the store that was empty holds the
  Event and the first Photo.
\<close>

theorem failed_photo_save_keeps_event:
  "events (run creation_flow no_store) = [] \<and> photos (run creation_flow no_store) = []
   \<and> map eventId (events (fst (done_cmd second_photo_fails (js ''42'') (run creation_flow no_store))))
       = [js ''EVT_B2X7K9Q1Z'']
   \<and> map photo_public_id
        (photos (fst (done_cmd second_photo_fails (js ''42'') (run creation_flow no_store))))
       = [js ''p2'']
   \<and> snd (done_cmd second_photo_fails (js ''42'') (run creation_flow no_store))
       = Reply FailedToCreate"
  by (simp add: flow_defs parse_defs done_cmd_def finalize_def new_Event_def castServiceType_def
      save_Event_def save_Photo_def preloaded_Photo_def delete_state_def second_photo_fails_def)


theorem done_failure_effects_witness:
  "userStates (run creation_flow no_store) (js ''42'')
     = Some \<lparr>step = PreloadedPhotos, eventData = Some flow_draft\<rparr>
   \<and> userStates (fst (done_cmd second_photo_fails (js ''42'') (run creation_flow no_store)))
        (js ''42'') = None
   \<and> \<not> db_ok (all_up\<lparr>db_ok := (\<lambda>n. False)\<rparr>) 0
   \<and> events (fst (done_cmd (all_up\<lparr>db_ok := (\<lambda>n. False)\<rparr>) (js ''42'')
         (run creation_flow no_store))) = []
   \<and> photos (fst (done_cmd (all_up\<lparr>db_ok := (\<lambda>n. False)\<rparr>) (js ''42'')
         (run creation_flow no_store))) = []
   \<and> snd (done_cmd (all_up\<lparr>db_ok := (\<lambda>n. False)\<rparr>) (js ''42'') (run creation_flow no_store))
       = Reply FailedToCreate
   \<and> fully_collected flow_draft
   \<and> draft_eventId flow_draft \<notin> set (map eventId (events (run creation_flow no_store)))
   \<and> 1 < length (collected flow_draft)
   \<and> db_ok second_photo_fails 0 \<and> db_ok second_photo_fails 1 \<and> \<not> db_ok second_photo_fails 2
   \<and> length (events (fst (done_cmd second_photo_fails (js ''42'') (run creation_flow no_store))))
       = 1
   \<and> map photo_public_id
        (photos (fst (done_cmd second_photo_fails (js ''42'') (run creation_flow no_store))))
       = [js ''p2'']
   \<and> snd (done_cmd second_photo_fails (js ''42'') (run creation_flow no_store))
       = Reply FailedToCreate"
proof -
  let ?\<sigma> = "run creation_flow no_store"
  let ?us = "\<lparr>step = PreloadedPhotos, eventData = Some flow_draft\<rparr>"
  let ?down = "all_up\<lparr>db_ok := (\<lambda>n. False)\<rparr>"
  have s: "userStates ?\<sigma> (js ''42'') = Some ?us" and ev: "events ?\<sigma> = []"
    and ph: "photos ?\<sigma> = []"
    using creation_flow_reaches by simp_all
  have st: "step ?us = PreloadedPhotos"
    by simp
  have ok: "db_ok second_photo_fails 0" "db_ok second_photo_fails 1"
    "\<not> db_ok second_photo_fails 2" "\<forall>j \<le> 1. db_ok second_photo_fails j"
    "\<not> db_ok second_photo_fails (Suc (Suc 0))"
    by (simp_all add: second_photo_fails_def all_up_def)
  have down: "\<not> db_ok ?down 0"
    by simp
  note t1 = done_failure_effects [OF s st, of ?down]
  note t2 = done_failure_effects [OF s st, of second_photo_fails]
  from t1 down have d1: "done_cmd ?down (js ''42'') ?\<sigma> = (delete_state (js ''42'') ?\<sigma>, Reply FailedToCreate)"
    by simp
  from t2 have a: "userStates (fst (done_cmd second_photo_fails (js ''42'') ?\<sigma>)) (js ''42'') = None"
    by simp
  note t3 = t2 [THEN conjunct2, THEN conjunct2, rule_format, of flow_draft 1]
  from t3 ok ev flow_draft_collected obtain e1 where
    d2: "done_cmd second_photo_fails (js ''42'') ?\<sigma>
           = (delete_state (js ''42'')
                (?\<sigma>\<lparr>events := events ?\<sigma> @ [e1],
                     photos := photos ?\<sigma>
                       @ preloaded_Photos second_photo_fails 1 (draft_eventId flow_draft)
                           (take 1 (collected flow_draft))\<rparr>),
              Reply FailedToCreate)"
    by auto
  have b: "length (events (fst (done_cmd second_photo_fails (js ''42'') ?\<sigma>))) = 1"
    by (simp add: d2 delete_state_def ev)
  have c: "map photo_public_id (photos (fst (done_cmd second_photo_fails (js ''42'') ?\<sigma>)))
             = [js ''p2'']"
    by (simp add: d2 delete_state_def ph flow_draft_collected preloaded_Photos_def
        preloaded_Photo_def)
  from s a down d1 ev ph flow_draft_collected ok b c d2 show ?thesis
    by (simp add: delete_state_def)
qed

subsection \<open>Events after creation\<close>

lemma save_disabled_length: "length (save_disabled eid es) = length es"
  by (induction es) simp_all

lemma save_disabled_except:
  "map except_status (save_disabled eid es) = map except_status es"
  by (induction es) (simp_all add: except_status_def)

lemma save_disabled_nth:
  "k < length es \<Longrightarrow>
   save_disabled eid es ! k = es ! k \<or> save_disabled eid es ! k = (es ! k)\<lparr>status := Disabled\<rparr>"
proof (induction es arbitrary: k)
  case Nil
  then show ?case by simp
next
  case (Cons a es)
  then show ?case by (cases k) simp_all
qed

lemma save_disabled_found:
  "findOne eid es = Some ev \<Longrightarrow>
   findOne eid (save_disabled eid es) = Some (ev\<lparr>status := Disabled\<rparr>)"
  by (induction es) (auto simp: findOne_def)

lemma on_text_events:
  "events (fst (on_text e u t \<sigma>)) = events \<sigma>
   \<or> events (fst (on_text e u t \<sigma>)) = save_disabled t (events \<sigma>)"
proof (cases "userStates \<sigma> u")
  case None
  then show ?thesis by (simp add: on_text_def)
next
  case (Some us)
  show ?thesis
    by (cases "step us")
      (simp_all add: Some on_text_def set_state_def delete_state_def split: option.splits)
qed

lemma on_photo_events: "events (fst (on_photo e u \<sigma>)) = events \<sigma>"
  by (simp add: on_photo_def set_state_def Let_def split: option.splits)

lemma save_preloaded_events: "events (fst (save_preloaded e n eid rs \<sigma>)) = events \<sigma>"
  by (induction rs arbitrary: n \<sigma>) (auto simp: save_Photo_def split: option.splits)

lemma finalize_events:
  "events (fst (finalize e us \<sigma>)) = events \<sigma>
   \<or> (\<exists>ev. events (fst (finalize e us \<sigma>)) = events \<sigma> @ [ev])"
proof (cases "eventData us")
  case None
  then show ?thesis by (simp add: finalize_def)
next
  case (Some d)
  show ?thesis
  proof (cases "new_Event (clock e 0) d")
    case None
    with Some show ?thesis by (simp add: finalize_def)
  next
    case ev: (Some event)
    show ?thesis
    proof (cases "save_Event e 0 event \<sigma>")
      case None
      with Some ev show ?thesis by (simp add: finalize_def)
    next
      case s1: (Some \<sigma>1)
      then have u: "events \<sigma>1 = events \<sigma> @ [event]"
        by (auto simp: save_Event_def split: if_splits)
      show ?thesis
      proof (cases "draft_preloadedPhotos d")
        case None
        with Some ev s1 u show ?thesis by (simp add: finalize_def)
      next
        case rs: (Some rs)
        obtain \<sigma>2 ok where sp: "save_preloaded e 1 (draft_eventId d) rs \<sigma>1 = (\<sigma>2, ok)"
          by (cases "save_preloaded e 1 (draft_eventId d) rs \<sigma>1")
        with save_preloaded_events [of e 1 "draft_eventId d" rs \<sigma>1] u
        have "events \<sigma>2 = events \<sigma> @ [event]" by simp
        with Some ev s1 rs sp show ?thesis
          by (simp add: finalize_def)
      qed
    qed
  qed
qed

lemma done_events:
  "events (fst (done_cmd e u \<sigma>)) = events \<sigma>
   \<or> (\<exists>ev. events (fst (done_cmd e u \<sigma>)) = events \<sigma> @ [ev])"
proof (cases "userStates \<sigma> u")
  case None
  then show ?thesis by (simp add: done_cmd_def)
next
  case (Some us)
  obtain \<sigma>' r where f: "finalize e us \<sigma> = (\<sigma>', r)"
    by (cases "finalize e us \<sigma>")
  with finalize_events [of e us \<sigma>] Some show ?thesis
    by (auto simp: done_cmd_def delete_state_def)
qed

lemma upload_events: "events (fst (upload_api e req \<sigma>)) = events \<sigma>"
  by (auto simp: upload_api_def save_Photo_def Let_def split: option.splits if_splits)

lemma get_events: "fst (get_event e eid \<sigma>) = \<sigma>"
  by (simp add: get_event_def split: option.splits)

text \<open>
  Claim C9. Under every operation of the system the Events already stored keep every
  field except \<^verbatim>\<open>status\<close>: they stay where they are in the collection, equal to
  what they were up to \<^verbatim>\<open>status\<close> (only the completion signal adds an Event, behind
  them). The upload route and the event route leave the Events untouched. A text message
  leaves each Event as it was or as it was with \<^verbatim>\<open>status\<close> disabled, and in the
  disable step, with the database answering, the Event found under the given id is
  afterwards that Event with \<^verbatim>\<open>status\<close> disabled.
\<close>

theorem events_change_only_in_status:
  "map except_status (take (length (events \<sigma>)) (events (fst (handle e i \<sigma>))))
     = map except_status (events \<sigma>)
   \<and> ((\<forall>userId. i \<noteq> Done userId) \<longrightarrow>
        map except_status (events (fst (handle e i \<sigma>))) = map except_status (events \<sigma>))
   \<and> ((\<exists>req. i = Upload req) \<or> (\<exists>eid. i = GetEvent eid) \<longrightarrow>
        events (fst (handle e i \<sigma>)) = events \<sigma>)
   \<and> (\<forall>userId text k. i = Text userId text \<and> k < length (events \<sigma>) \<longrightarrow>
        events (fst (handle e i \<sigma>)) ! k = events \<sigma> ! k
        \<or> events (fst (handle e i \<sigma>)) ! k = (events \<sigma> ! k)\<lparr>status := Disabled\<rparr>)
   \<and> (\<forall>userId text userState ev.
        i = Text userId text \<and> userStates \<sigma> userId = Some userState
        \<and> step userState = EventIdForDisable \<and> db_ok e 0 \<and> db_ok e 1
        \<and> findOne text (events \<sigma>) = Some ev \<longrightarrow>
        findOne text (events (fst (handle e i \<sigma>))) = Some (ev\<lparr>status := Disabled\<rparr>))"
proof (intro conjI impI allI)
  show "map except_status (take (length (events \<sigma>)) (events (fst (handle e i \<sigma>))))
          = map except_status (events \<sigma>)"
  proof (cases i)
    case (Text u t)
    with on_text_events [of e u t \<sigma>] show ?thesis
      by (auto simp: save_disabled_length save_disabled_except)
  next
    case (PhotoMessage u)
    then show ?thesis by (simp add: on_photo_events)
  next
    case (Done u)
    with done_events [of e u \<sigma>] show ?thesis by auto
  next
    case (Upload req)
    then show ?thesis by (simp add: upload_events)
  qed (simp_all add: start_cmd_def disable_cmd_def get_events Let_def)
next
  assume "\<forall>userId. i \<noteq> Done userId"
  then show "map except_status (events (fst (handle e i \<sigma>))) = map except_status (events \<sigma>)"
  proof (cases i)
    case (Text u t)
    with on_text_events [of e u t \<sigma>] show ?thesis
      by (auto simp: save_disabled_except)
  next
    case (PhotoMessage u)
    then show ?thesis by (simp add: on_photo_events)
  next
    case (Upload req)
    then show ?thesis by (simp add: upload_events)
  qed (simp_all add: start_cmd_def disable_cmd_def get_events Let_def)
next
  assume "(\<exists>req. i = Upload req) \<or> (\<exists>eid. i = GetEvent eid)"
  then show "events (fst (handle e i \<sigma>)) = events \<sigma>"
    by (auto simp: upload_events get_events)
next
  fix userId msg k
  assume "i = Text userId msg \<and> k < length (events \<sigma>)"
  with on_text_events [of e userId msg \<sigma>] save_disabled_nth [of k "events \<sigma>" msg]
  show "events (fst (handle e i \<sigma>)) ! k = events \<sigma> ! k
        \<or> events (fst (handle e i \<sigma>)) ! k = (events \<sigma> ! k)\<lparr>status := Disabled\<rparr>"
    by auto
next
  fix userId msg userState ev
  assume "i = Text userId msg \<and> userStates \<sigma> userId = Some userState
        \<and> step userState = EventIdForDisable \<and> db_ok e 0 \<and> db_ok e 1
        \<and> findOne msg (events \<sigma>) = Some ev"
  with save_disabled_found [of msg "events \<sigma>" ev]
  show "findOne msg (events (fst (handle e i \<sigma>))) = Some (ev\<lparr>status := Disabled\<rparr>)"
    by (simp add: on_text_def set_state_def delete_state_def)
qed


theorem events_change_only_in_status_witness:
  "map except_status (events (fst (handle all_up (Text (js ''42'') (js ''EVT_A1'')) disabling_store)))
     = map except_status (events disabling_store)
   \<and> events (fst (handle all_up (Upload guest_request) party_store)) = events party_store
   \<and> (0::nat) < length (events disabling_store)
   \<and> userStates disabling_store (js ''42'') = Some \<lparr>step = EventIdForDisable, eventData = None\<rparr>
   \<and> db_ok all_up 0 \<and> db_ok all_up 1
   \<and> findOne (js ''EVT_A1'') (events disabling_store) = Some party
   \<and> findOne (js ''EVT_A1'')
        (events (fst (handle all_up (Text (js ''42'') (js ''EVT_A1'')) disabling_store)))
       = Some (party\<lparr>status := Disabled\<rparr>)
   \<and> events (fst (handle all_up (Text (js ''42'') (js ''EVT_A1'')) disabling_store)) ! 0
       = (events disabling_store ! 0)\<lparr>status := Disabled\<rparr>"
proof -
  let ?i = "Text (js ''42'') (js ''EVT_A1'')"
  have s: "userStates disabling_store (js ''42'')
             = Some \<lparr>step = EventIdForDisable, eventData = None\<rparr>"
    and ev: "events disabling_store = [party]"
    by (simp_all add: disabling_store_def)
  have ok: "db_ok all_up 0" "db_ok all_up 1"
    by (simp_all add: all_up_def)
  have f: "findOne (js ''EVT_A1'') (events disabling_store) = Some party"
    by (simp add: findOne_def ev party_def)
  note t = events_change_only_in_status [of disabling_store all_up ?i]
  note u = events_change_only_in_status [of party_store all_up "Upload guest_request"]
  from t have a: "map except_status (events (fst (handle all_up ?i disabling_store)))
                    = map except_status (events disabling_store)"
    by simp
  from u have b: "events (fst (handle all_up (Upload guest_request) party_store))
                    = events party_store"
    by simp
  from t s ok f have c: "findOne (js ''EVT_A1'') (events (fst (handle all_up ?i disabling_store)))
                           = Some (party\<lparr>status := Disabled\<rparr>)"
    by simp
  have l: "length (events (fst (handle all_up ?i disabling_store))) = 1"
    using arg_cong [OF a, of length] by (simp add: ev)
  from c l have d: "events (fst (handle all_up ?i disabling_store)) ! 0
                      = (events disabling_store ! 0)\<lparr>status := Disabled\<rparr>"
    by (cases "events (fst (handle all_up ?i disabling_store))")
      (simp_all add: findOne_def ev split: if_splits)
  from a b c d s ok f ev show ?thesis
    by simp
qed

subsection \<open>The whole creation dialogue\<close>

text \<open>
  Every dialogue of valid inputs in the order of the steps ends in the
  \<^verbatim>\<open>preloadedPhotos\<close> step with a fully collected draft and an untouched store, and
  the completion signal then stores one Event with the collected fields and one Photo
  per preloaded image.
\<close>

lemma run_append: "run (xs @ ys) \<sigma> = run ys (run xs \<sigma>)"
  by (induction xs arbitrary: \<sigma>) auto

lemma photos_collected:
  assumes "userStates \<sigma> u = Some \<lparr>step = PreloadedPhotos, eventData = Some d\<rparr>"
  shows "userStates (run (map (\<lambda>r. (photo_env r, PhotoMessage u)) imgs) \<sigma>) u
           = Some \<lparr>step = PreloadedPhotos,
                   eventData = Some (d\<lparr>draft_preloadedPhotos :=
                     (if imgs = [] then draft_preloadedPhotos d else Some (collected d @ imgs))\<rparr>)\<rparr>
       \<and> events (run (map (\<lambda>r. (photo_env r, PhotoMessage u)) imgs) \<sigma>) = events \<sigma>
       \<and> photos (run (map (\<lambda>r. (photo_env r, PhotoMessage u)) imgs) \<sigma>) = photos \<sigma>"
  using assms
proof (induction imgs arbitrary: \<sigma> d)
  case Nil
  then show ?case by simp
next
  case (Cons r rs)
  let ?d = "d\<lparr>draft_preloadedPhotos := Some (collected d @ [r])\<rparr>"
  let ?\<sigma> = "fst (on_photo (photo_env r) u \<sigma>)"
  from Cons.prems have
    s: "userStates ?\<sigma> u = Some \<lparr>step = PreloadedPhotos, eventData = Some ?d\<rparr>"
    and e: "events ?\<sigma> = events \<sigma>" and p: "photos ?\<sigma> = photos \<sigma>"
    by (simp_all add: on_photo_def photo_env_def all_up_def set_state_def collected_def)
  have c: "collected ?d = collected d @ [r]"
    by (simp add: collected_def)
  from Cons.IH [OF s] e p c show ?case
    by simp
qed

lemma dialogue_reaches:
  assumes "length w \<le> 100" and "length t \<le> 200"
    and "s \<in> set [js ''/both'', js ''/viewalbum'', js ''/uploadpics'']"
    and "parseInt n = Some k" and "1 \<le> k" and "k \<le> 20"
  shows "userStates (run (dialogue rnd u w t bg s n imgs) \<sigma>) u
           = Some \<lparr>step = PreloadedPhotos,
                   eventData = Some (dialogue_draft rnd u w t bg s k imgs)\<rparr>
       \<and> events (run (dialogue rnd u w t bg s n imgs) \<sigma>) = events \<sigma>
       \<and> photos (run (dialogue rnd u w t bg s n imgs) \<sigma>) = photos \<sigma>"
proof -
  let ?first = "[(all_up, Start rnd u), (all_up, Text u w), (all_up, Text u t),
      (photo_env bg, PhotoMessage u), (all_up, Text u s), (all_up, Text u n)]"
  let ?d = "dialogue_draft rnd u w t bg s k []"
  from assms have
    s: "userStates (run ?first \<sigma>) u = Some \<lparr>step = PreloadedPhotos, eventData = Some ?d\<rparr>"
    and e: "events (run ?first \<sigma>) = events \<sigma>" and p: "photos (run ?first \<sigma>) = photos \<sigma>"
    by (simp_all add: start_cmd_def on_text_def on_photo_def set_state_def photo_env_def
        all_up_def dialogue_draft_def Let_def)
  have c: "?d\<lparr>draft_preloadedPhotos :=
             (if imgs = [] then draft_preloadedPhotos ?d else Some (collected ?d @ imgs))\<rparr>
           = dialogue_draft rnd u w t bg s k imgs"
    by (simp add: dialogue_draft_def collected_def)
  from photos_collected [OF s, of imgs] e p c show ?thesis
    by (simp add: dialogue_def run_append)
qed

lemma dialogue_draft_collected:
  assumes "u \<noteq> []" and "w \<noteq> []" and "length w \<le> 100" and "t \<noteq> []" and "length t \<le> 200"
    and "s \<in> set [js ''/both'', js ''/viewalbum'', js ''/uploadpics'']"
    and "1 \<le> k" and "k \<le> 20"
    and "list_all (\<lambda>r. public_id r \<noteq> [] \<and> url r \<noteq> []) imgs"
  shows "fully_collected (dialogue_draft rnd u w t bg s k imgs)
       \<and> collected (dialogue_draft rnd u w t bg s k imgs) = imgs"
  using assms
  by (auto simp: fully_collected_def collected_def dialogue_draft_def generateEventId_def js_def)

lemma dialogue_then_done:
  assumes "u \<noteq> []" and "w \<noteq> []" and "length w \<le> 100" and "t \<noteq> []" and "length t \<le> 200"
    and "s \<in> set [js ''/both'', js ''/viewalbum'', js ''/uploadpics'']"
    and "parseInt n = Some k" and "1 \<le> k" and "k \<le> 20"
    and "list_all (\<lambda>r. public_id r \<noteq> [] \<and> url r \<noteq> []) imgs"
    and "generateEventId rnd \<notin> set (map eventId (events \<sigma>))"
    and "\<forall>j \<le> length imgs. db_ok e j"
  shows "\<exists>ev. eventId ev = generateEventId rnd \<and> welcomeText ev = w \<and> description ev = t
            \<and> uploadLimit ev = k \<and> status ev = Active
            \<and> events (fst (done_cmd e u (run (dialogue rnd u w t bg s n imgs) \<sigma>)))
                = events \<sigma> @ [ev]
            \<and> photos (fst (done_cmd e u (run (dialogue rnd u w t bg s n imgs) \<sigma>)))
                = photos \<sigma> @ preloaded_Photos e 1 (generateEventId rnd) imgs
            \<and> snd (done_cmd e u (run (dialogue rnd u w t bg s n imgs) \<sigma>))
                = Reply (EventComplete (generateEventId rnd))"
proof -
  let ?\<sigma> = "run (dialogue rnd u w t bg s n imgs) \<sigma>"
  let ?d = "dialogue_draft rnd u w t bg s k imgs"
  let ?us = "\<lparr>step = PreloadedPhotos, eventData = Some ?d\<rparr>"
  from dialogue_reaches [OF assms(3,5,6,7,8,9), of rnd u bg imgs \<sigma>]
  have s: "userStates ?\<sigma> u = Some ?us" and ev: "events ?\<sigma> = events \<sigma>"
    and ph: "photos ?\<sigma> = photos \<sigma>"
    by simp_all
  from dialogue_draft_collected [OF assms(1-6) assms(8-10), of rnd bg]
  have fc: "fully_collected ?d" and c: "collected ?d = imgs"
    by simp_all
  have id: "draft_eventId ?d = generateEventId rnd"
    by (simp add: dialogue_draft_def)
  from new_Event_fully_collected [OF fc, of "clock e 0"] obtain ev where
    n: "new_Event (clock e 0) ?d = Some ev"
    by blast
  then have fields: "eventId ev = generateEventId rnd" "welcomeText ev = w" "description ev = t"
    "uploadLimit ev = k" "status ev = Active"
    by (auto simp: new_Event_def dialogue_draft_def Let_def split: option.splits if_splits)
  have d: "eventData ?us = Some ?d"
    by simp
  from assms(11) ev id have fresh: "draft_eventId ?d \<notin> set (map eventId (events ?\<sigma>))"
    by simp
  from assms(12) c have ok: "\<forall>j \<le> length (collected ?d). db_ok e j"
    by simp
  from finalize_success [OF d fc fresh ok n] s
  have "done_cmd e u ?\<sigma>
          = (delete_state u
               (?\<sigma>\<lparr>events := events ?\<sigma> @ [ev],
                    photos := photos ?\<sigma> @ preloaded_Photos e 1 (draft_eventId ?d) (collected ?d)\<rparr>),
             Reply (EventComplete (draft_eventId ?d)))"
    by (simp add: done_cmd_def)
  with fields ev ph c id show ?thesis
    by (simp add: delete_state_def)
qed


subsection \<open>Event ids stay unique\<close>

text \<open>
  No operation stores a second Event under an id that is in use: the completion signal
  is the only one that adds an Event, and the unique index turns a used id down.
\<close>

lemma save_disabled_ids: "map eventId (save_disabled eid es) = map eventId es"
  by (induction es) simp_all

lemma finalize_appends_new_id:
  "events (fst (finalize e us \<sigma>)) = events \<sigma>
   \<or> (\<exists>ev. events (fst (finalize e us \<sigma>)) = events \<sigma> @ [ev]
          \<and> eventId ev \<notin> set (map eventId (events \<sigma>)))"
proof (cases "eventData us")
  case None
  then show ?thesis by (simp add: finalize_def)
next
  case (Some d)
  show ?thesis
  proof (cases "new_Event (clock e 0) d")
    case None
    with Some show ?thesis by (simp add: finalize_def)
  next
    case ev: (Some event)
    show ?thesis
    proof (cases "save_Event e 0 event \<sigma>")
      case None
      with Some ev show ?thesis by (simp add: finalize_def)
    next
      case s1: (Some \<sigma>1)
      then have u: "events \<sigma>1 = events \<sigma> @ [event]"
        and n: "eventId event \<notin> set (map eventId (events \<sigma>))"
        by (auto simp: save_Event_def split: if_splits)
      show ?thesis
      proof (cases "draft_preloadedPhotos d")
        case None
        with Some ev s1 u n show ?thesis by (simp add: finalize_def)
      next
        case rs: (Some rs)
        obtain \<sigma>2 ok where sp: "save_preloaded e 1 (draft_eventId d) rs \<sigma>1 = (\<sigma>2, ok)"
          by (cases "save_preloaded e 1 (draft_eventId d) rs \<sigma>1")
        with save_preloaded_events [of e 1 "draft_eventId d" rs \<sigma>1] u
        have "events \<sigma>2 = events \<sigma> @ [event]" by simp
        with Some ev s1 rs sp n show ?thesis
          by (simp add: finalize_def)
      qed
    qed
  qed
qed

lemma eventIds_stay_unique:
  assumes "distinct (map eventId (events \<sigma>))"
  shows "distinct (map eventId (events (fst (handle e i \<sigma>))))"
proof (cases i)
  case (Text u t)
  with on_text_events [of e u t \<sigma>] assms show ?thesis
    by (auto simp: save_disabled_ids)
next
  case (PhotoMessage u)
  with assms show ?thesis by (simp add: on_photo_events)
next
  case (Done u)
  show ?thesis
  proof (cases "userStates \<sigma> u")
    case None
    with Done assms show ?thesis by (simp add: done_cmd_def)
  next
    case (Some us)
    obtain \<sigma>' r where f: "finalize e us \<sigma> = (\<sigma>', r)"
      by (cases "finalize e us \<sigma>")
    with finalize_appends_new_id [of e us \<sigma>] Some Done assms show ?thesis
      by (auto simp: done_cmd_def delete_state_def)
  qed
next
  case (Upload req)
  with assms show ?thesis by (simp add: upload_events)
qed (use assms in \<open>simp_all add: start_cmd_def disable_cmd_def get_events Let_def\<close>)


subsection \<open>The completion signal in the running bot\<close>

text \<open>
  The messages \<^verbatim>\<open>/done\<close> and \<^verbatim>\<open>/disable\<close> go to the text handler, and all the
  running bot does is among the operations of \<open>handle\<close>.
\<close>

lemma command_texts:
  "commandOf (js ''/done'') = Some (js ''done'')"
  "commandOf (js ''/disable'') = Some (js ''disable'')"
  "commandOf (js ''/start'') = Some (js ''start'')"
  by (simp_all add: commandOf_def isCommandChar_def js_def)

lemma commands_reach_text_handler:
  "dispatch e rnd (TextUpdate u (js ''/done'')) \<sigma> = on_text e u (js ''/done'') \<sigma>"
  "dispatch e rnd (TextUpdate u (js ''/disable'')) \<sigma> = on_text e u (js ''/disable'') \<sigma>"
  by (simp_all add: dispatch_def command_texts) (simp_all add: js_def)

lemma done_text_in_last_step:
  assumes "userStates \<sigma> u = Some us" and "step us = PreloadedPhotos"
  shows "dispatch e rnd (TextUpdate u (js ''/done'')) \<sigma> = (\<sigma>, Silent)"
  using assms by (simp add: commands_reach_text_handler on_text_def set_state_same)

lemma dispatch_within_handle:
  "\<exists>i. handle e i \<sigma> = map_prod id Bot (dispatch e rnd upd \<sigma>)"
proof (cases upd)
  case (TextUpdate u t)
  show ?thesis
  proof (cases "commandOf t = Some (js ''start'')")
    case True
    with TextUpdate have "handle e (Start rnd u) \<sigma> = map_prod id Bot (dispatch e rnd upd \<sigma>)"
      by (simp add: dispatch_def)
    then show ?thesis ..
  next
    case False
    with TextUpdate have "handle e (Text u t) \<sigma> = map_prod id Bot (dispatch e rnd upd \<sigma>)"
      by (simp add: dispatch_def)
    then show ?thesis ..
  qed
next
  case (PhotoUpdate u)
  then have "handle e (PhotoMessage u) \<sigma> = map_prod id Bot (dispatch e rnd upd \<sigma>)"
    by (simp add: dispatch_def)
  then show ?thesis ..
qed

text \<open>
  Claim C3 fails on the running bot. The completion signal is the text message
  \<^verbatim>\<open>/done\<close>, and the text handler gets it. After the dialogue \<open>creation_flow\<close>
  the session is in step \<^verbatim>\<open>preloadedPhotos\<close> with a fully collected draft, and the
  message \<^verbatim>\<open>/done\<close> changes nothing and sends nothing: no Event and no Photo is
  stored and the session stays. In step \<^verbatim>\<open>welcomeText\<close> the same message is stored
  as the welcome text and the session moves to \<^verbatim>\<open>description\<close>.
\<close>

theorem done_message_is_not_finalized:
  "userStates (run creation_flow no_store) (js ''42'')
     = Some \<lparr>step = PreloadedPhotos, eventData = Some flow_draft\<rparr>
   \<and> fully_collected flow_draft
   \<and> events (run creation_flow no_store) = [] \<and> photos (run creation_flow no_store) = []
   \<and> dispatch all_up (js ''0.c3'') (TextUpdate (js ''42'') (js ''/done''))
        (run creation_flow no_store)
       = (run creation_flow no_store, Silent)
   \<and> userStates (at_step WelcomeText (Some album_draft)) (js ''42'')
       = Some \<lparr>step = WelcomeText, eventData = Some album_draft\<rparr>
   \<and> userStates (fst (dispatch all_up (js ''0.c3'') (TextUpdate (js ''42'') (js ''/done''))
                        (at_step WelcomeText (Some album_draft)))) (js ''42'')
       = Some \<lparr>step = Description,
               eventData = Some (album_draft\<lparr>draft_welcomeText := Some (js ''/done'')\<rparr>)\<rparr>"
proof -
  have s: "userStates (run creation_flow no_store) (js ''42'')
             = Some \<lparr>step = PreloadedPhotos, eventData = Some flow_draft\<rparr>"
    and ev: "events (run creation_flow no_store) = []"
    and ph: "photos (run creation_flow no_store) = []"
    using creation_flow_reaches by simp_all
  have d: "dispatch all_up (js ''0.c3'') (TextUpdate (js ''42'') (js ''/done''))
             (run creation_flow no_store) = (run creation_flow no_store, Silent)"
    by (rule done_text_in_last_step [OF s]) simp
  have w: "userStates (at_step WelcomeText (Some album_draft)) (js ''42'')
             = Some \<lparr>step = WelcomeText, eventData = Some album_draft\<rparr>"
    by (simp add: at_step_def)
  have l: "length (js ''/done'') = 5"
    by (simp add: js_def)
  have a: "userStates (fst (dispatch all_up (js ''0.c3'') (TextUpdate (js ''42'') (js ''/done''))
                        (at_step WelcomeText (Some album_draft)))) (js ''42'')
       = Some \<lparr>step = Description,
               eventData = Some (album_draft\<lparr>draft_welcomeText := Some (js ''/done'')\<rparr>)\<rparr>"
    by (simp add: commands_reach_text_handler on_text_def w l set_state_def)
  from s ev ph d w a flow_draft_collected show ?thesis
    by simp
qed


end
